theory Spec2Isabelle
  imports Main "HOL-Library.Sublist" "HOL-Library.AList" "HOL-Library.Multiset" "HOL-Library.Char_ord" "HOL-Library.List_Lexorder"
begin

section \<open>JavaScript values used by the client\<close>

text \<open>
  Strings: a \<open>char\<close> stands for one UTF-16 code unit below 256.
\<close>

text \<open>
  A thrown JavaScript error is a value with a \<open>name\<close> and a \<open>message\<close>.
  \<open>new Error(msg)\<close> has the name \<open>Error\<close>; the rejection of an aborted
  \<open>fetch\<close> has the name \<open>AbortError\<close>.
\<close>

datatype js_error = JsError (error_name: string) (message: string)

definition Error :: "string \<Rightarrow> js_error" where
  "Error msg = JsError ''Error'' msg"

definition AbortError :: js_error where
  "AbortError = JsError ''AbortError'' ''This operation was aborted''"

text \<open>
  Numbers. The client only ever holds integers read by \<open>parseInt(s, 10)\<close> or the
  not-a-number value; the model is exact for integers of magnitude below \<open>2 ^ 53\<close>.
\<close>

datatype js_number = JNum int | JNaN

definition digit_char :: "nat \<Rightarrow> char" where
  "digit_char d = ''0123456789'' ! d"

fun string_of_nat :: "nat \<Rightarrow> string" where
  "string_of_nat n =
     (if n < 10 then [digit_char n] else string_of_nat (n div 10) @ [digit_char (n mod 10)])"

declare string_of_nat.simps [simp del]

definition string_of_int :: "int \<Rightarrow> string" where
  "string_of_int i = (if i < 0 then CHR ''-'' # string_of_nat (nat (- i)) else string_of_nat (nat i))"

text \<open>\<open>String(v)\<close> and the template literal \<open>`${v}`\<close> on a number, and on \<open>number | null\<close>.\<close>

fun string_of_number :: "js_number \<Rightarrow> string" where
  "string_of_number (JNum i) = string_of_int i"
| "string_of_number JNaN = ''NaN''"

fun string_of_nullable :: "js_number option \<Rightarrow> string" where
  "string_of_nullable None = ''null''"
| "string_of_nullable (Some n) = string_of_number n"

text \<open>
  \<open>parseInt(s, 10)\<close>: leading white space is skipped (the white-space code units below
  256: tab, line feed, vertical tab, form feed, carriage return, space and no-break space),
  one sign is read, then the longest run of decimal digits; no digit at all gives \<open>NaN\<close>.
  The value is the integer the digits denote: a JavaScript number holds it exactly when
  its magnitude is below \<open>2 ^ 53\<close>.
\<close>

definition is_space :: "char \<Rightarrow> bool" where
  "is_space c = (c \<in> set [CHR 0x20, CHR 0x09, CHR 0x0A, CHR 0x0B, CHR 0x0C, CHR 0x0D, CHR 0xA0])"

definition is_digit :: "char \<Rightarrow> bool" where
  "is_digit c = (c \<in> set ''0123456789'')"

definition digit_val :: "char \<Rightarrow> nat" where
  "digit_val c = length (takeWhile (\<lambda>d. d \<noteq> c) ''0123456789'')"

definition nat_of_digits :: "string \<Rightarrow> nat" where
  "nat_of_digits ds = foldl (\<lambda>a c. 10 * a + digit_val c) 0 ds"

definition parseInt :: "string \<Rightarrow> js_number" where
  "parseInt s =
     (let t = dropWhile is_space s;
          neg = (case t of [] \<Rightarrow> False | c # _ \<Rightarrow> c = CHR ''-'');
          u = (case t of [] \<Rightarrow> [] | c # r \<Rightarrow> if c = CHR ''-'' \<or> c = CHR ''+'' then r else t);
          ds = takeWhile is_digit u
      in if ds = [] then JNaN
         else JNum (if neg then - int (nat_of_digits ds) else int (nat_of_digits ds)))"

section \<open>The HTTP layer\<close>

text \<open>
  Query parameters are \<open>Record<string, string | number | boolean | undefined>\<close>: an
  association list in property order, \<open>None\<close> for \<open>undefined\<close>.
\<close>

datatype param_value = PString string | PNumber int | PBoolean bool

fun String :: "param_value \<Rightarrow> string" where
  "String (PString s) = s"
| "String (PNumber n) = string_of_int n"
| "String (PBoolean b) = (if b then ''true'' else ''false'')"

type_synonym params = "(string \<times> param_value option) list"

record Customer =
  id :: "string option"
  email :: "string option"
  first_name :: "string option"
  last_name :: "string option"
  company :: "string option"
  tags :: "string list option"
  created_at :: "string option"
  updated_at :: "string option"

text \<open>The request bodies the modelled operations send (\<open>JSON.stringify\<close> of these objects).\<close>

datatype body = CustomersBody "Customer list" | EmailBody string

record http_request =
  url :: string
  searchParams :: "(string \<times> string) list"
  req_method :: string
  req_headers :: "(string \<times> string) list"
  req_body :: "body option"

text \<open>
  A response is read through \<open>status\<close>, \<open>ok\<close>, \<open>headers.get\<close>, \<open>text()\<close> and
  \<open>json()\<close>. The parsed JSON document has the abstract type \<open>'j\<close>; a body that is not
  JSON makes \<open>json()\<close> reject. The response arrives with its status and headers; the
  body has been read \<open>body_after\<close> milliseconds after the start of the request
  (\<open>None\<close>: never).
\<close>

record 'j response =
  status :: nat
  headers_get :: "string \<Rightarrow> string option"
  body_after :: "nat option"
  body_text :: string
  body_json :: "js_error + 'j"

definition ok :: "'j response \<Rightarrow> bool" where
  "ok r = (200 \<le> status r \<and> status r \<le> 299)"

text \<open>
  The network is the environment: in a world \<open>'w\<close> it answers a request with a reply and
  a new world. A reply says after how many milliseconds the exchange settles (\<open>None\<close>:
  never) and how: \<open>fetch\<close> rejects, or a response arrives.
\<close>

record 'j net_reply =
  latency :: "nat option"
  outcome :: "js_error + 'j response"

type_synonym ('w, 'j) network = "'w \<Rightarrow> http_request \<Rightarrow> 'j net_reply \<times> 'w"

text \<open>
  \<open>fetch(url, {signal})\<close> raced against \<open>setTimeout(() => controller.abort(), timeout)\<close>:
  an exchange that has not settled when the timer fires is aborted and \<open>fetch\<close> rejects
  with an \<open>AbortError\<close>. The timer fires after \<open>timeout\<close> milliseconds (delays that fit
  a timer, as the default 30000 does).
\<close>

text \<open>
  \<open>await response.text()\<close> while the timer of the request is still running: a body that
  has not been read when the timer fires is aborted.
\<close>

definition response_text :: "'j response \<Rightarrow> nat \<Rightarrow> js_error + string" where
  "response_text r timeout =
     (case body_after r of
        None \<Rightarrow> Inl AbortError
      | Some b \<Rightarrow> if b < timeout then Inr (body_text r) else Inl AbortError)"

definition fetch :: "('w, 'j) network \<Rightarrow> http_request \<Rightarrow> nat \<Rightarrow> 'w \<Rightarrow> (js_error + 'j response) \<times> 'w" where
  "fetch net req timeout w =
     (let (reply, w') = net w req
      in ((case latency reply of
             None \<Rightarrow> Inl AbortError
           | Some l \<Rightarrow> if l < timeout then outcome reply else Inl AbortError), w'))"

section \<open>The client\<close>

record RateLimitInfo =
  remaining :: "js_number option"
  limit :: "js_number option"
  reset :: "js_number option"

record RetentlyClient =
  apiKey :: string
  cacheDisabled :: bool
  lastRateLimitInfo :: RateLimitInfo

text \<open>The field initialisers of the class; the constructor only adds the API key of the configuration.\<close>

definition new_client :: "string \<Rightarrow> RetentlyClient" where
  "new_client key =
     \<lparr>apiKey = key, cacheDisabled = False,
      lastRateLimitInfo = \<lparr>remaining = None, limit = None, reset = None\<rparr>\<rparr>"

definition getRateLimitInfo :: "RetentlyClient \<Rightarrow> RateLimitInfo" where
  "getRateLimitInfo c = lastRateLimitInfo c"

record options =
  http_method :: "string option"
  params :: "params option"
  body :: "body option"
  timeout :: "nat option"

definition no_options :: options where
  "no_options = \<lparr>http_method = None, params = None, body = None, timeout = None\<rparr>"

definition baseUrl :: string where
  "baseUrl = ''https://app.retently.com/api/v2''"

text \<open>The defaults of the destructuring \<open>{ method = 'GET', params = {}, body, timeout = 30000 }\<close>.\<close>

definition the_method :: "options \<Rightarrow> string" where
  "the_method opts = (case http_method opts of None \<Rightarrow> ''GET'' | Some m \<Rightarrow> m)"

definition the_params :: "options \<Rightarrow> params" where
  "the_params opts = (case params opts of None \<Rightarrow> [] | Some p \<Rightarrow> p)"

definition the_timeout :: "options \<Rightarrow> nat" where
  "the_timeout opts = (case timeout opts of None \<Rightarrow> 30000 | Some t \<Rightarrow> t)"

text \<open>
  The URL with its query and the \<open>fetchOptions\<close> that \<open>request\<close> builds. The endpoints
  of the client are plain paths, on which \<open>new URL\<close> is the concatenation.
\<close>

definition fetch_request :: "RetentlyClient \<Rightarrow> string \<Rightarrow> options \<Rightarrow> http_request" where
  "fetch_request c endpoint opts =
     \<lparr>url = baseUrl @ endpoint,
      searchParams = concat (map (\<lambda>(k, v). case v of None \<Rightarrow> [] | Some x \<Rightarrow> [(k, String x)])
                                 (the_params opts)),
      req_method = the_method opts,
      req_headers = [(''X-Api-Key'', apiKey c), (''Content-Type'', ''application/json''),
                     (''Accept'', ''application/json'')],
      req_body = (if body opts \<noteq> None \<and> the_method opts \<noteq> ''GET'' then body opts else None)\<rparr>"

text \<open>
  \<open>headers.get(name) ? parseInt(headers.get(name)!, 10) : null\<close>: the test is on the
  truthiness of the header value, and the empty string is falsy.
\<close>

definition header_number :: "'j response \<Rightarrow> string \<Rightarrow> js_number option" where
  "header_number r name =
     (case headers_get r name of
        None \<Rightarrow> None
      | Some v \<Rightarrow> if v = [] then None else Some (parseInt v))"

definition parse_rate_limit :: "'j response \<Rightarrow> RateLimitInfo" where
  "parse_rate_limit r =
     \<lparr>remaining = header_number r ''X-RateLimit-Remaining'',
      limit = header_number r ''X-RateLimit-Limit'',
      reset = header_number r ''X-RateLimit-Reset''\<rparr>"

text \<open>\<open>response.headers.get('Retry-After') || '60'\<close>.\<close>

definition retry_after :: "'j response \<Rightarrow> string" where
  "retry_after r =
     (case headers_get r ''Retry-After'' of
        None \<Rightarrow> ''60''
      | Some v \<Rightarrow> if v = [] then ''60'' else v)"

definition rate_limit_message :: "'j response \<Rightarrow> RateLimitInfo \<Rightarrow> string" where
  "rate_limit_message r info =
     ''Rate limit exceeded. Retry after '' @ retry_after r @ '' seconds. '' @
     ''Remaining: '' @ string_of_nullable (remaining info) @ ''/'' @ string_of_nullable (limit info)"

definition api_error_message :: "'j response \<Rightarrow> string \<Rightarrow> string" where
  "api_error_message r errorText =
     ''Retently API error ('' @ string_of_nat (status r) @ ''): '' @ errorText"

definition timeout_message :: "nat \<Rightarrow> string \<Rightarrow> string" where
  "timeout_message t endpoint = ''Request timeout after '' @ string_of_nat t @ ''ms: '' @ endpoint"

text \<open>The \<open>catch\<close> block of \<open>request\<close>: an \<open>AbortError\<close> becomes the timeout error, anything else is thrown again.\<close>

definition on_catch :: "nat \<Rightarrow> string \<Rightarrow> js_error \<Rightarrow> js_error" where
  "on_catch t endpoint e =
     (if error_name e = ''AbortError'' then Error (timeout_message t endpoint) else e)"

text \<open>
  \<open>request\<close>. The state is the client (for \<open>lastRateLimitInfo\<close>) and the world. On a
  response that is not \<open>ok\<close> the text of the body is awaited inside \<open>try\<close>, under the
  timer. The result of \<open>response.json()\<close> is returned without \<open>await\<close>: the timer is
  cleared at once and a rejection does not pass through the \<open>catch\<close> block.
\<close>

definition request ::
  "('w, 'j) network \<Rightarrow> string \<Rightarrow> options \<Rightarrow> RetentlyClient \<times> 'w \<Rightarrow> (js_error + 'j) \<times> RetentlyClient \<times> 'w" where
  "request net endpoint opts = (\<lambda>(c, w).
     (case fetch net (fetch_request c endpoint opts) (the_timeout opts) w of
        (Inl e, w') \<Rightarrow> (Inl (on_catch (the_timeout opts) endpoint e), c, w')
      | (Inr r, w') \<Rightarrow>
          (let c' = c\<lparr>lastRateLimitInfo := parse_rate_limit r\<rparr>
           in if status r = 429
              then (Inl (on_catch (the_timeout opts) endpoint
                           (Error (rate_limit_message r (lastRateLimitInfo c')))), c', w')
              else if \<not> ok r
              then (case response_text r (the_timeout opts) of
                      Inl e \<Rightarrow> (Inl (on_catch (the_timeout opts) endpoint e), c', w')
                    | Inr errorText \<Rightarrow>
                        (Inl (on_catch (the_timeout opts) endpoint
                                (Error (api_error_message r errorText))), c', w'))
              else (body_json r, c', w'))))"

section \<open>The response cache\<close>

text \<open>
  Modelled from the spec: the package \<open>@local/plugin-cache\<close> (\<open>PluginCache\<close>, \<open>TTL\<close>,
  \<open>createCacheKey\<close>) is imported by the client and is not among the sources. The
  definitions of this section follow the specification of the TTL cache: an in-memory
  mapping from string keys to pairs of a value and an expiry time, with hit and miss
  counters and an enable switch. The store keeps insertion order, as a \<open>Map\<close> does.
\<close>

record 'v CacheEntry =
  entry_value :: 'v
  expiresAt :: nat

record 'v PluginCache =
  store :: "(string \<times> 'v CacheEntry) list"
  hits :: nat
  misses :: nat
  enabled :: bool

definition new_cache :: "'v PluginCache" where
  "new_cache = \<lparr>store = [], hits = 0, misses = 0, enabled = True\<rparr>"

definition lookup :: "'v PluginCache \<Rightarrow> string \<Rightarrow> 'v CacheEntry option" where
  "lookup cache key = map_of (store cache) key"

text \<open>Modelled from the spec: the durations of \<open>TTL\<close>, in milliseconds.\<close>

definition TTL_MINUTE :: nat where "TTL_MINUTE = 60000"
definition TTL_FIVE_MINUTES :: nat where "TTL_FIVE_MINUTES = 300000"
definition TTL_FIFTEEN_MINUTES :: nat where "TTL_FIFTEEN_MINUTES = 900000"
definition TTL_HOUR :: nat where "TTL_HOUR = 3600000"

text \<open>
  Modelled from the spec: \<open>getOrFetch(key, fetchFn, { ttl, bypassCache })\<close> at the time
  \<open>now\<close>. The fetch function runs on a state \<open>'s\<close> and fails or produces a value.
  With \<open>bypassCache\<close> or a disabled cache it is called directly and nothing is stored.
  Otherwise a fresh entry (\<open>now < expiresAt\<close>) is a hit; an expired entry is removed;
  a miss is counted, the fetch function is called, and only its successful result is
  stored, with \<open>expiresAt = now + ttl\<close>.
\<close>

definition fetch_and_store ::
  "nat \<Rightarrow> string \<Rightarrow> ('s \<Rightarrow> (js_error + 'v) \<times> 's) \<Rightarrow> nat \<Rightarrow> 'v PluginCache \<times> 's
     \<Rightarrow> (js_error + 'v) \<times> 'v PluginCache \<times> 's" where
  "fetch_and_store now key fetchFn ttl = (\<lambda>(cache, s).
     (let counted = cache\<lparr>misses := misses cache + 1\<rparr>
      in case fetchFn s of
           (Inl e, s') \<Rightarrow> (Inl e, counted, s')
         | (Inr v, s') \<Rightarrow>
             (Inr v,
              counted\<lparr>store := AList.update key \<lparr>entry_value = v, expiresAt = now + ttl\<rparr> (store counted)\<rparr>,
              s')))"

definition getOrFetch ::
  "nat \<Rightarrow> string \<Rightarrow> ('s \<Rightarrow> (js_error + 'v) \<times> 's) \<Rightarrow> nat \<Rightarrow> bool \<Rightarrow> 'v PluginCache \<times> 's
     \<Rightarrow> (js_error + 'v) \<times> 'v PluginCache \<times> 's" where
  "getOrFetch now key fetchFn ttl bypassCache = (\<lambda>(cache, s).
     if bypassCache \<or> \<not> enabled cache
     then (case fetchFn s of (r, s') \<Rightarrow> (r, cache, s'))
     else (case lookup cache key of
             Some e \<Rightarrow>
               if now < expiresAt e
               then (Inr (entry_value e), cache\<lparr>hits := hits cache + 1\<rparr>, s)
               else fetch_and_store now key fetchFn ttl
                      (cache\<lparr>store := AList.delete key (store cache)\<rparr>, s)
           | None \<Rightarrow> fetch_and_store now key fetchFn ttl (cache, s)))"

text \<open>Modelled from the spec: \<open>invalidate\<close>, \<open>invalidatePattern\<close>, \<open>clear\<close>, \<open>disable\<close>, \<open>enable\<close>.\<close>

definition invalidate :: "string \<Rightarrow> 'v PluginCache \<Rightarrow> bool \<times> 'v PluginCache" where
  "invalidate key cache =
     (lookup cache key \<noteq> None, cache\<lparr>store := AList.delete key (store cache)\<rparr>)"

text \<open>A regular expression is used through \<open>pattern.test(key)\<close> only: a predicate on keys.\<close>

definition invalidatePattern :: "(string \<Rightarrow> bool) \<Rightarrow> 'v PluginCache \<Rightarrow> nat \<times> 'v PluginCache" where
  "invalidatePattern pattern cache =
     (length (filter (\<lambda>(k, e). pattern k) (store cache)),
      cache\<lparr>store := filter (\<lambda>(k, e). \<not> pattern k) (store cache)\<rparr>)"

definition clear :: "'v PluginCache \<Rightarrow> nat \<times> 'v PluginCache" where
  "clear cache = (length (store cache), cache\<lparr>store := []\<rparr>)"

definition disable :: "'v PluginCache \<Rightarrow> 'v PluginCache" where
  "disable cache = cache\<lparr>enabled := False\<rparr>"

definition enable :: "'v PluginCache \<Rightarrow> 'v PluginCache" where
  "enable cache = cache\<lparr>enabled := True\<rparr>"

text \<open>The pattern \<open>/^customer/\<close>: the key starts with \<open>customer\<close>.\<close>

definition customer_pattern :: "string \<Rightarrow> bool" where
  "customer_pattern key = prefix ''customer'' key"

subsection \<open>Cache keys\<close>

text \<open>
  Modelled from the spec: \<open>createCacheKey(operation, params)\<close>. The specification asks for
  a string derived from the operation name and the parameters, with \<open>undefined\<close>
  parameters left out and no dependence on property order, and it has the keys of the
  customer operations start with \<open>customer\<close>. It fixes no format. The model writes the
  operation name, a colon, and the defined parameters in the order of their names,
  each as \<open>"name":value;\<close> with strings quoted as in JSON.
\<close>

definition escape_char :: "char \<Rightarrow> string" where
  "escape_char c = (if c = CHR 0x22 \<or> c = CHR 0x5C then [CHR 0x5C, c] else [c])"

definition quote :: "string \<Rightarrow> string" where
  "quote s = CHR 0x22 # concat (map escape_char s) @ [CHR 0x22]"

fun render_value :: "param_value \<Rightarrow> string" where
  "render_value (PString s) = quote s"
| "render_value (PNumber n) = string_of_int n"
| "render_value (PBoolean b) = (if b then ''true'' else ''false'')"

definition render_param :: "string \<times> param_value \<Rightarrow> string" where
  "render_param = (\<lambda>(k, v). quote k @ '':'' @ render_value v @ '';'')"

definition defined_params :: "params \<Rightarrow> (string \<times> param_value) list" where
  "defined_params ps = concat (map (\<lambda>(k, v). case v of None \<Rightarrow> [] | Some x \<Rightarrow> [(k, x)]) ps)"

definition createCacheKey :: "string \<Rightarrow> params \<Rightarrow> string" where
  "createCacheKey operation ps =
     operation @ '':'' @ concat (map render_param (sort_key fst (defined_params ps)))"

section \<open>Operations of the client\<close>

text \<open>
  An operation runs on the client, the module-level cache and the world. The truthiness
  test of JavaScript on \<open>string | undefined\<close>: \<open>undefined\<close> and the empty string are falsy.
\<close>

definition truthy :: "string option \<Rightarrow> bool" where
  "truthy v = (case v of None \<Rightarrow> False | Some s \<Rightarrow> s \<noteq> [])"

definition disableCache :: "RetentlyClient \<times> 'v PluginCache \<Rightarrow> RetentlyClient \<times> 'v PluginCache" where
  "disableCache = (\<lambda>(c, cache). (c\<lparr>cacheDisabled := True\<rparr>, disable cache))"

definition enableCache :: "RetentlyClient \<times> 'v PluginCache \<Rightarrow> RetentlyClient \<times> 'v PluginCache" where
  "enableCache = (\<lambda>(c, cache). (c\<lparr>cacheDisabled := False\<rparr>, enable cache))"

text \<open>A cached read: the key, the fetch function and the options go to \<open>getOrFetch\<close>.\<close>

definition cached ::
  "nat \<Rightarrow> string \<Rightarrow> (RetentlyClient \<times> 'w \<Rightarrow> (js_error + 'j) \<times> RetentlyClient \<times> 'w) \<Rightarrow> nat \<Rightarrow> bool
     \<Rightarrow> RetentlyClient \<times> 'j PluginCache \<times> 'w \<Rightarrow> (js_error + 'j) \<times> RetentlyClient \<times> 'j PluginCache \<times> 'w" where
  "cached now cacheKey fetchFn ttl bypassCache = (\<lambda>(c, cache, w).
     (case getOrFetch now cacheKey fetchFn ttl bypassCache (cache, (c, w)) of
        (r, cache', (c', w')) \<Rightarrow> (r, c', cache', w')))"

definition listCustomers ::
  "('w, 'j) network \<Rightarrow> nat \<Rightarrow> int option \<Rightarrow> int option \<Rightarrow> string option
     \<Rightarrow> RetentlyClient \<times> 'j PluginCache \<times> 'w \<Rightarrow> (js_error + 'j) \<times> RetentlyClient \<times> 'j PluginCache \<times> 'w" where
  "listCustomers net now page perPage email_filter = (\<lambda>(c, cache, w).
     cached now
       (createCacheKey ''customers''
          [(''page'', map_option PNumber page), (''perPage'', map_option PNumber perPage),
           (''email'', map_option PString email_filter)])
       (request net ''/customers''
          (no_options\<lparr>params := Some
             ([(''page'', map_option PNumber page), (''per_page'', map_option PNumber perPage)] @
              (if truthy email_filter then [(''email'', map_option PString email_filter)] else []))\<rparr>))
       TTL_FIVE_MINUTES (cacheDisabled c) (c, cache, w))"

definition getCustomer ::
  "('w, 'j) network \<Rightarrow> nat \<Rightarrow> string
     \<Rightarrow> RetentlyClient \<times> 'j PluginCache \<times> 'w \<Rightarrow> (js_error + 'j) \<times> RetentlyClient \<times> 'j PluginCache \<times> 'w" where
  "getCustomer net now customerId = (\<lambda>(c, cache, w).
     cached now (createCacheKey ''customer'' [(''id'', Some (PString customerId))])
       (request net (''/customers/'' @ customerId) no_options)
       TTL_MINUTE (cacheDisabled c) (c, cache, w))"

record FeedbackOptions =
  page :: "int option"
  perPage :: "int option"
  campaignId :: "string option"
  since :: "string option"
  until :: "string option"
  sort_order :: "string option"

definition feedback_key :: "FeedbackOptions \<Rightarrow> string" where
  "feedback_key options =
     createCacheKey ''feedback''
       [(''page'', map_option PNumber (page options)),
        (''perPage'', map_option PNumber (perPage options)),
        (''campaignId'', map_option PString (campaignId options)),
        (''since'', map_option PString (since options)),
        (''until'', map_option PString (until options)),
        (''sort'', map_option PString (sort_order options))]"

definition feedback_request :: "FeedbackOptions \<Rightarrow> options" where
  "feedback_request options =
     no_options\<lparr>params := Some
       [(''page'', map_option PNumber (page options)),
        (''per_page'', map_option PNumber (perPage options)),
        (''campaign_id'', map_option PString (campaignId options)),
        (''created_after'', map_option PString (since options)),
        (''created_before'', map_option PString (until options)),
        (''sort'', map_option PString (sort_order options))]\<rparr>"

definition feedback_fetch ::
  "('w, 'j) network \<Rightarrow> FeedbackOptions \<Rightarrow> RetentlyClient \<times> 'w \<Rightarrow> (js_error + 'j) \<times> RetentlyClient \<times> 'w" where
  "feedback_fetch net options = request net ''/feedback'' (feedback_request options)"

definition listFeedback ::
  "('w, 'j) network \<Rightarrow> nat \<Rightarrow> FeedbackOptions
     \<Rightarrow> RetentlyClient \<times> 'j PluginCache \<times> 'w \<Rightarrow> (js_error + 'j) \<times> RetentlyClient \<times> 'j PluginCache \<times> 'w" where
  "listFeedback net now options = (\<lambda>(c, cache, w).
     (let bypassCache = (cacheDisabled c \<or> truthy (since options))
      in cached now (feedback_key options) (feedback_fetch net options)
           (TTL_MINUTE * 2) bypassCache (c, cache, w)))"

subsection \<open>Bulk creation and deletion of customers\<close>

text \<open>
  \<open>String.prototype.toLowerCase\<close> is a function of the platform, given by the case
  tables of Unicode. The model takes it as the parameter \<open>toLowerCase\<close> of the
  operations that call it.
\<close>

text \<open>
  The filter of \<open>createCustomers\<close> with its set \<open>seen\<close>: an entry without an email or with
  the empty email is dropped, and so is an entry whose lower-cased email was seen.
\<close>

fun dedupe :: "(string \<Rightarrow> string) \<Rightarrow> string set \<Rightarrow> Customer list \<Rightarrow> Customer list" where
  "dedupe toLowerCase seen [] = []"
| "dedupe toLowerCase seen (c # cs) =
     (case email c of
        None \<Rightarrow> dedupe toLowerCase seen cs
      | Some e \<Rightarrow>
          if e = [] then dedupe toLowerCase seen cs
          else if toLowerCase e \<in> seen then dedupe toLowerCase seen cs
          else c # dedupe toLowerCase (insert (toLowerCase e) seen) cs)"

record Row =
  row_email :: "string option"
  success :: bool
  error :: "string option"

record BulkResult =
  write_operation :: bool
  action :: string
  success_count :: nat
  error_count :: nat
  results :: "Row list"

definition chunkSize :: nat where
  "chunkSize = 1000"

definition slice :: "'a list \<Rightarrow> nat \<Rightarrow> nat \<Rightarrow> 'a list" where
  "slice xs a b = take (b - a) (drop a xs)"

definition row_ok :: "Customer \<Rightarrow> Row" where
  "row_ok customer = \<lparr>row_email = email customer, success = True, error = None\<rparr>"

definition row_failed :: "string \<Rightarrow> Customer \<Rightarrow> Row" where
  "row_failed msg customer = \<lparr>row_email = email customer, success = False, error = Some msg\<rparr>"

definition post_customers :: "Customer list \<Rightarrow> options" where
  "post_customers chunk = no_options\<lparr>http_method := Some ''POST'', body := Some (CustomersBody chunk)\<rparr>"

text \<open>
  The body of the loop: one request for the chunk inside \<open>try\<close>; every entry of the chunk
  is pushed as a success, or in the \<open>catch\<close> block as a failure with the message of the error.
\<close>

type_synonym tally = "Row list \<times> nat \<times> nat"

definition submit_chunk ::
  "('w, 'j) network \<Rightarrow> tally \<times> RetentlyClient \<times> 'w \<Rightarrow> Customer list \<Rightarrow> tally \<times> RetentlyClient \<times> 'w" where
  "submit_chunk net = (\<lambda>((rows, successCount, errorCount), c, w) chunk.
     (case request net ''/customers'' (post_customers chunk) (c, w) of
        (Inr _, c', w') \<Rightarrow>
          ((rows @ map row_ok chunk, successCount + length chunk, errorCount), c', w')
      | (Inl e, c', w') \<Rightarrow>
          ((rows @ map (row_failed (message e)) chunk, successCount, errorCount + length chunk), c', w')))"

function createCustomers_loop ::
  "('w, 'j) network \<Rightarrow> Customer list \<Rightarrow> nat \<Rightarrow> tally \<times> RetentlyClient \<times> 'w \<Rightarrow> tally \<times> RetentlyClient \<times> 'w" where
  "createCustomers_loop net deduped i st =
     (if i < length deduped
      then createCustomers_loop net deduped (i + chunkSize)
             (submit_chunk net st (slice deduped i (i + chunkSize)))
      else st)"
  by pat_completeness auto
termination
  by (relation "measure (\<lambda>(net, deduped, i, st). length deduped - i)") (auto simp: chunkSize_def)

declare createCustomers_loop.simps [simp del]

definition createCustomers ::
  "('w, 'j) network \<Rightarrow> (string \<Rightarrow> string) \<Rightarrow> Customer list
     \<Rightarrow> RetentlyClient \<times> 'j PluginCache \<times> 'w \<Rightarrow> BulkResult \<times> RetentlyClient \<times> 'j PluginCache \<times> 'w" where
  "createCustomers net toLowerCase customers = (\<lambda>(c, cache, w).
     (let deduped = dedupe toLowerCase {} customers
      in case createCustomers_loop net deduped 0 (([], 0, 0), c, w) of
           ((rows, successCount, errorCount), c', w') \<Rightarrow>
             (\<lparr>write_operation = True, action = ''create-customers'',
               success_count = successCount, error_count = errorCount, results = rows\<rparr>,
              c', snd (invalidatePattern customer_pattern cache), w')))"

record DeleteResult =
  delete_write_operation :: bool
  delete_action :: string
  deleted :: bool

text \<open>\<open>deleteCustomer\<close>: a failure of the request propagates, and the invalidation is not reached.\<close>

definition deleteCustomer ::
  "('w, 'j) network \<Rightarrow> string
     \<Rightarrow> RetentlyClient \<times> 'j PluginCache \<times> 'w \<Rightarrow> (js_error + DeleteResult) \<times> RetentlyClient \<times> 'j PluginCache \<times> 'w" where
  "deleteCustomer net address = (\<lambda>(c, cache, w).
     (case request net ''/customers'' (no_options\<lparr>http_method := Some ''DELETE'', body := Some (EmailBody address)\<rparr>) (c, w) of
        (Inl e, c', w') \<Rightarrow> (Inl e, c', cache, w')
      | (Inr _, c', w') \<Rightarrow>
          (Inr \<lparr>delete_write_operation = True, delete_action = ''delete-customer'', deleted = True\<rparr>,
           c', snd (invalidatePattern customer_pattern cache), w')))"

subsection \<open>Notions used to state the properties of bulk creation\<close>

text \<open>An entry passes the test \<open>!c.email\<close> when it has a non-empty email; its key is the lower-cased email.\<close>

definition has_email :: "Customer \<Rightarrow> bool" where
  "has_email c = truthy (email c)"

definition email_key :: "(string \<Rightarrow> string) \<Rightarrow> Customer \<Rightarrow> string" where
  "email_key toLowerCase c = (case email c of None \<Rightarrow> [] | Some e \<Rightarrow> toLowerCase e)"

text \<open>A list split into consecutive chunks of \<open>n\<close> entries, the last one possibly shorter.\<close>

function chunks :: "nat \<Rightarrow> 'a list \<Rightarrow> 'a list list" where
  "chunks n xs = (if n = 0 \<or> xs = [] then [] else take n xs # chunks n (drop n xs))"
  by pat_completeness auto
termination
  by (relation "measure (\<lambda>(n, xs). length xs)") auto

declare chunks.simps [simp del]

text \<open>
  The chunks submitted one after the other, each by one request: the results of the
  requests, and the client and the world after the last one.
\<close>

fun chunk_outcomes ::
  "('w, 'j) network \<Rightarrow> RetentlyClient \<times> 'w \<Rightarrow> Customer list list \<Rightarrow> (js_error + 'j) list" where
  "chunk_outcomes net st [] = []"
| "chunk_outcomes net st (chunk # rest) =
     (case request net ''/customers'' (post_customers chunk) st of
        (r, st') \<Rightarrow> r # chunk_outcomes net st' rest)"

fun after_chunks ::
  "('w, 'j) network \<Rightarrow> RetentlyClient \<times> 'w \<Rightarrow> Customer list list \<Rightarrow> RetentlyClient \<times> 'w" where
  "after_chunks net st [] = st"
| "after_chunks net st (chunk # rest) =
     after_chunks net (snd (request net ''/customers'' (post_customers chunk) st)) rest"

text \<open>The rows of one chunk, given the result of its request.\<close>

definition mark_chunk :: "Customer list \<Rightarrow> js_error + 'j \<Rightarrow> Row list" where
  "mark_chunk chunk r =
     (case r of Inr _ \<Rightarrow> map row_ok chunk | Inl e \<Rightarrow> map (row_failed (message e)) chunk)"

definition succeeded :: "Customer list \<Rightarrow> js_error + 'j \<Rightarrow> nat" where
  "succeeded chunk r = (case r of Inr _ \<Rightarrow> length chunk | Inl _ \<Rightarrow> 0)"

definition failed :: "Customer list \<Rightarrow> js_error + 'j \<Rightarrow> nat" where
  "failed chunk r = (case r of Inr _ \<Rightarrow> 0 | Inl _ \<Rightarrow> length chunk)"

text \<open>A network that also records, in order, every request it is sent.\<close>

definition recording :: "('w, 'j) network \<Rightarrow> (http_request list \<times> 'w, 'j) network" where
  "recording net = (\<lambda>(log, w) req. case net w req of (reply, w') \<Rightarrow> (reply, (log @ [req], w')))"

text \<open>A fetch function that also counts, in its state, how often it has been called.\<close>

definition counting :: "('s \<Rightarrow> (js_error + 'v) \<times> 's) \<Rightarrow> nat \<times> 's \<Rightarrow> (js_error + 'v) \<times> nat \<times> 's" where
  "counting fetchFn = (\<lambda>(n, s). case fetchFn s of (r, s') \<Rightarrow> (r, (Suc n, s')))"

section \<open>Scenarios\<close>

text \<open>Small networks and responses on which the theorems below are instantiated.\<close>

definition silent_network :: "(unit, string) network" where
  "silent_network = (\<lambda>w req. (\<lparr>latency = None, outcome = Inl AbortError\<rparr>, w))"

definition respond :: "nat \<Rightarrow> string response \<Rightarrow> (unit, string) network" where
  "respond l r = (\<lambda>w req. (\<lparr>latency = Some l, outcome = Inr r\<rparr>, w))"

definition throttled :: "string response" where
  "throttled =
     \<lparr>status = 429,
      headers_get = map_of [(''Retry-After'', ''30''), (''X-RateLimit-Remaining'', ''0''),
                            (''X-RateLimit-Limit'', ''150'')],
      body_after = Some 125, body_text = ''Too Many Requests'',
      body_json = Inl (JsError ''SyntaxError'' ''Unexpected token'')\<rparr>"

definition empty_quota :: "string response" where
  "empty_quota =
     \<lparr>status = 200,
      headers_get = map_of [(''X-RateLimit-Remaining'', ''''), (''X-RateLimit-Limit'', ''150'')],
      body_after = Some 125, body_text = ''{}'', body_json = Inr ''{}''\<rparr>"

text \<open>Lower case on the letters \<open>A\<close> to \<open>Z\<close>, for entries written in ASCII.\<close>

definition ascii_lower_char :: "char \<Rightarrow> char" where
  "ascii_lower_char c =
     (case map_of (zip ''ABCDEFGHIJKLMNOPQRSTUVWXYZ'' ''abcdefghijklmnopqrstuvwxyz'') c of
        None \<Rightarrow> c
      | Some l \<Rightarrow> l)"

definition ascii_lower :: "string \<Rightarrow> string" where
  "ascii_lower s = map ascii_lower_char s"

definition customer_of :: "string option \<Rightarrow> Customer" where
  "customer_of e =
     \<lparr>id = None, email = e, first_name = None, last_name = None, company = None, tags = None,
      created_at = None, updated_at = None\<rparr>"

text \<open>The entries \<open>a\<close>, \<open>aa\<close>, \<open>aaa\<close>, ...: 1500 customers with pairwise different emails.\<close>

definition fifteen_hundred :: "Customer list" where
  "fifteen_hundred = map (\<lambda>n. customer_of (Some (replicate (Suc n) CHR ''a''))) [0..<1500]"

definition created :: "string response" where
  "created =
     \<lparr>status = 200, headers_get = (\<lambda>name. None), body_after = Some 60, body_text = ''{}'',
      body_json = Inr ''{}''\<rparr>"

definition unavailable :: "string response" where
  "unavailable =
     \<lparr>status = 503, headers_get = (\<lambda>name. None), body_after = Some 60,
      body_text = ''Service Unavailable'',
      body_json = Inl (JsError ''SyntaxError'' ''Unexpected token'')\<rparr>"

text \<open>A network whose world counts the requests: the first one succeeds, every later one is refused.\<close>

definition first_call_only :: "(nat, string) network" where
  "first_call_only =
     (\<lambda>w req. (\<lparr>latency = Some 50, outcome = Inr (if w = 0 then created else unavailable)\<rparr>, Suc w))"

text \<open>A cache that holds a score, a page of customers and one customer.\<close>

definition customers_page_key :: string where
  "customers_page_key =
     createCacheKey ''customers'' [(''page'', Some (PNumber 1)), (''perPage'', None), (''email'', None)]"

definition customer_42_key :: string where
  "customer_42_key = createCacheKey ''customer'' [(''id'', Some (PString ''42''))]"

definition warm_cache :: "string PluginCache" where
  "warm_cache =
     \<lparr>store = [(''nps_score'', \<lparr>entry_value = ''score'', expiresAt = 3600000\<rparr>),
               (customers_page_key, \<lparr>entry_value = ''page'', expiresAt = 300000\<rparr>),
               (customer_42_key, \<lparr>entry_value = ''customer'', expiresAt = 60000\<rparr>)],
      hits = 0, misses = 3, enabled = True\<rparr>"

text \<open>A fetch function on a numbered state: it returns the number and moves to the next.\<close>

definition numbered :: "nat \<Rightarrow> (js_error + nat) \<times> nat" where
  "numbered s = (Inr s, Suc s)"

definition no_filter :: FeedbackOptions where
  "no_filter =
     \<lparr>page = None, perPage = None, campaignId = None, since = None, until = None, sort_order = None\<rparr>"

definition stale_feedback :: "FeedbackOptions \<Rightarrow> string PluginCache" where
  "stale_feedback options =
     \<lparr>store = [(feedback_key options, \<lparr>entry_value = ''stale'', expiresAt = 120000\<rparr>)],
      hits = 0, misses = 1, enabled = True\<rparr>"

definition empty_since :: FeedbackOptions where
  "empty_since = no_filter\<lparr>since := Some []\<rparr>"

definition polling :: FeedbackOptions where
  "polling = no_filter\<lparr>since := Some ''2024-01-15''\<rparr>"

text \<open>A fetch function that always fails.\<close>

definition failing :: "nat \<Rightarrow> (js_error + nat) \<times> nat" where
  "failing s = (Inl (Error ''unreachable''), Suc s)"

text \<open>The three entries of which two differ in the case of the letters only.\<close>

definition case_variants :: "Customer list" where
  "case_variants =
     [customer_of (Some ''a@x.com''), customer_of (Some ''A@X.COM''), customer_of (Some ''b@x.com'')]"

section \<open>Properties of the HTTP layer\<close>

lemma string_of_nat_small: "n < 10 \<Longrightarrow> string_of_nat n = [digit_char n]"
  by (simp add: string_of_nat.simps)

lemma string_of_nat_large:
  "10 \<le> n \<Longrightarrow> string_of_nat n = string_of_nat (n div 10) @ [digit_char (n mod 10)]"
  by (subst string_of_nat.simps) simp

lemmas string_of_nat_eval = string_of_nat_small string_of_nat_large digit_char_def

lemma on_catch_Error [simp]: "on_catch t endpoint (Error m) = Error m"
  by (simp add: on_catch_def Error_def)

lemma on_catch_AbortError [simp]: "on_catch t endpoint AbortError = Error (timeout_message t endpoint)"
  by (simp add: on_catch_def AbortError_def)

lemma request_on_response:
  assumes "net w (fetch_request c endpoint opts) = (reply, w')"
    and "latency reply = Some l" and "l < the_timeout opts" and "outcome reply = Inr r"
  shows "request net endpoint opts (c, w) =
           (if status r = 429 then Inl (Error (rate_limit_message r (parse_rate_limit r)))
            else if \<not> ok r
            then (case response_text r (the_timeout opts) of
                    Inl e \<Rightarrow> Inl (on_catch (the_timeout opts) endpoint e)
                  | Inr errorText \<Rightarrow> Inl (Error (api_error_message r errorText)))
            else body_json r,
            c\<lparr>lastRateLimitInfo := parse_rate_limit r\<rparr>, w')"
  using assms by (simp add: request_def fetch_def Let_def split: sum.splits)

text \<open>
  Claim C7. Every call of \<open>request\<close> runs under a timeout, 30000 ms when the caller gives
  none. When the exchange has not settled by then (it never settles, or settles later), the
  request is aborted and the call fails with the error
  \<open>Request timeout after <timeout>ms: <endpoint>\<close>, which names the configured duration
  and the endpoint. The client is left as it was.
\<close>

theorem request_timeout:
  assumes "net w (fetch_request c endpoint opts) = (reply, w')"
    and "latency reply = None \<or> (\<exists>l. latency reply = Some l \<and> the_timeout opts < l)"
  shows "request net endpoint opts (c, w) =
           (Inl (Error (''Request timeout after '' @ string_of_nat (the_timeout opts) @ ''ms: '' @ endpoint)),
            c, w')
         \<and> (timeout opts = None \<longrightarrow> the_timeout opts = 30000)
         \<and> (\<forall>t. timeout opts = Some t \<longrightarrow> the_timeout opts = t)"
proof -
  have "fetch net (fetch_request c endpoint opts) (the_timeout opts) w = (Inl AbortError, w')"
    using assms by (auto simp: fetch_def)
  then show ?thesis
    by (simp add: request_def the_timeout_def timeout_message_def)
qed

theorem request_timeout_witness:
  "request silent_network ''/nps/score'' no_options (new_client ''key'', ()) =
     (Inl (Error ''Request timeout after 30000ms: /nps/score''), new_client ''key'', ())"
  using request_timeout [of silent_network "()" "new_client ''key''" "''/nps/score''" no_options
                            "\<lparr>latency = None, outcome = Inl AbortError\<rparr>" "()"]
  by (simp add: silent_network_def no_options_def the_timeout_def string_of_nat_eval)

text \<open>
  Claim C6. A response with status 429 makes \<open>request\<close> fail, after this one exchange
  with the network and with no second attempt. The message of the error holds the value of
  the \<open>Retry-After\<close> header, \<open>60\<close> when the header is absent, and the remaining and limit
  counts just parsed from the rate-limit headers of the same response.
\<close>

theorem request_rate_limited:
  assumes "net w (fetch_request c endpoint opts) = (reply, w')"
    and "latency reply = Some l" and "l < the_timeout opts"
    and "outcome reply = Inr r" and "status r = 429"
  shows "request net endpoint opts (c, w) =
           (Inl (Error (rate_limit_message r (parse_rate_limit r))),
            c\<lparr>lastRateLimitInfo := parse_rate_limit r\<rparr>, w')
         \<and> rate_limit_message r (parse_rate_limit r) =
             ''Rate limit exceeded. Retry after '' @ retry_after r @ '' seconds. '' @
             ''Remaining: '' @ string_of_nullable (header_number r ''X-RateLimit-Remaining'') @
             ''/'' @ string_of_nullable (header_number r ''X-RateLimit-Limit'')
         \<and> (headers_get r ''Retry-After'' = None \<longrightarrow> retry_after r = ''60'')
         \<and> (\<forall>v. headers_get r ''Retry-After'' = Some v \<longrightarrow>
               sublist v (rate_limit_message r (parse_rate_limit r)))"
proof (intro conjI allI impI)
  show "request net endpoint opts (c, w) =
           (Inl (Error (rate_limit_message r (parse_rate_limit r))),
            c\<lparr>lastRateLimitInfo := parse_rate_limit r\<rparr>, w')"
    using assms by (simp add: request_def fetch_def Let_def)
next
  show "rate_limit_message r (parse_rate_limit r) =
           ''Rate limit exceeded. Retry after '' @ retry_after r @ '' seconds. '' @
           ''Remaining: '' @ string_of_nullable (header_number r ''X-RateLimit-Remaining'') @
           ''/'' @ string_of_nullable (header_number r ''X-RateLimit-Limit'')"
    by (simp add: rate_limit_message_def parse_rate_limit_def)
next
  assume "headers_get r ''Retry-After'' = None"
  then show "retry_after r = ''60''" by (simp add: retry_after_def)
next
  fix v assume v: "headers_get r ''Retry-After'' = Some v"
  show "sublist v (rate_limit_message r (parse_rate_limit r))"
  proof (cases "v = []")
    case True
    then show ?thesis by simp
  next
    case False
    with v have "retry_after r = v" by (simp add: retry_after_def)
    then have "rate_limit_message r (parse_rate_limit r) =
        ''Rate limit exceeded. Retry after '' @ v @
        ('' seconds. '' @ ''Remaining: '' @ string_of_nullable (remaining (parse_rate_limit r)) @
         ''/'' @ string_of_nullable (limit (parse_rate_limit r)))"
      by (simp add: rate_limit_message_def)
    then show ?thesis unfolding sublist_def by blast
  qed
qed

lemma throttled_message:
  "rate_limit_message throttled (parse_rate_limit throttled) =
     ''Rate limit exceeded. Retry after 30 seconds. Remaining: 0/150''"
  by (simp add: rate_limit_message_def string_of_nat_eval throttled_def retry_after_def
        header_number_def parse_rate_limit_def parseInt_def is_space_def is_digit_def
        nat_of_digits_def digit_val_def string_of_int_def)

theorem request_rate_limited_witness:
  "request (respond 120 throttled) ''/feedback'' no_options (new_client ''key'', ()) =
     (Inl (Error ''Rate limit exceeded. Retry after 30 seconds. Remaining: 0/150''),
      (new_client ''key'')\<lparr>lastRateLimitInfo := parse_rate_limit throttled\<rparr>, ())
   \<and> sublist ''30'' ''Rate limit exceeded. Retry after 30 seconds. Remaining: 0/150''"
proof -
  have h: "headers_get throttled ''Retry-After'' = Some ''30''"
    by (simp add: throttled_def)
  have n: "respond 120 throttled () (fetch_request (new_client ''key'') ''/feedback'' no_options) =
      (\<lparr>latency = Some 120, outcome = Inr throttled\<rparr>, ())"
    by (simp add: respond_def)
  have l: "latency \<lparr>latency = Some 120, outcome = Inr throttled\<rparr> = Some 120"
    and t: "120 < the_timeout no_options"
    and s: "status throttled = 429"
    and out: "outcome \<lparr>latency = Some 120, outcome = Inr throttled\<rparr> = Inr throttled"
    by (simp_all add: the_timeout_def no_options_def throttled_def)
  note inst = request_rate_limited [of "respond 120 throttled" "()" "new_client ''key''" "''/feedback''"
        no_options "\<lparr>latency = Some 120, outcome = Inr throttled\<rparr>" "()" 120 throttled,
        OF n l t out s]
  from inst have a: "request (respond 120 throttled) ''/feedback'' no_options (new_client ''key'', ()) =
     (Inl (Error (rate_limit_message throttled (parse_rate_limit throttled))),
      (new_client ''key'')\<lparr>lastRateLimitInfo := parse_rate_limit throttled\<rparr>, ())"
    by (rule conjunct1)
  from inst h have b: "sublist ''30'' (rate_limit_message throttled (parse_rate_limit throttled))"
    by blast
  show ?thesis
    using a b unfolding throttled_message by (rule conjI)
qed


lemma header_number_None:
  "header_number r name = None \<longleftrightarrow> headers_get r name = None \<or> headers_get r name = Some []"
  by (simp add: header_number_def split: option.splits)

lemma header_number_Some:
  "headers_get r name = Some v \<Longrightarrow> v \<noteq> [] \<Longrightarrow> header_number r name = Some (parseInt v)"
  by (simp add: header_number_def)

text \<open>
  Claim C8, as stated, fails on a header that is present with an empty value: the field is
  \<open>null\<close> although the header is not absent.
\<close>

theorem rate_limit_null_counterexample:
  "headers_get empty_quota ''X-RateLimit-Remaining'' = Some '''' \<and>
   remaining (getRateLimitInfo
     (fst (snd (request (respond 120 empty_quota) ''/nps/score'' no_options (new_client ''key'', ()))))) = None"
  by (simp add: request_def fetch_def respond_def empty_quota_def no_options_def the_timeout_def
        ok_def getRateLimitInfo_def parse_rate_limit_def header_number_def)

text \<open>
  Claim C8, amended. A new client has all three fields \<open>null\<close>. After every response, of
  any status, the stored rate-limit information is replaced by the values parsed from the
  headers \<open>X-RateLimit-Remaining\<close>, \<open>X-RateLimit-Limit\<close> and \<open>X-RateLimit-Reset\<close> of that
  response; a field is \<open>null\<close> exactly when its header is absent or empty, and is
  \<open>parseInt\<close> of the header value otherwise.
\<close>

theorem rate_limit_info_overwritten:
  assumes "net w (fetch_request c endpoint opts) = (reply, w')"
    and "latency reply = Some l" and "l < the_timeout opts"
    and "outcome reply = Inr r"
  shows "getRateLimitInfo (fst (snd (request net endpoint opts (c, w)))) =
           \<lparr>remaining = header_number r ''X-RateLimit-Remaining'',
            limit = header_number r ''X-RateLimit-Limit'',
            reset = header_number r ''X-RateLimit-Reset''\<rparr>
         \<and> (\<forall>name. header_number r name = None \<longleftrightarrow>
                   headers_get r name = None \<or> headers_get r name = Some [])
         \<and> (\<forall>name v. headers_get r name = Some v \<and> v \<noteq> [] \<longrightarrow>
                   header_number r name = Some (parseInt v))
         \<and> getRateLimitInfo (new_client key) = \<lparr>remaining = None, limit = None, reset = None\<rparr>"
proof (intro conjI allI impI)
  show "getRateLimitInfo (fst (snd (request net endpoint opts (c, w)))) =
           \<lparr>remaining = header_number r ''X-RateLimit-Remaining'',
            limit = header_number r ''X-RateLimit-Limit'',
            reset = header_number r ''X-RateLimit-Reset''\<rparr>"
    using request_on_response [of net w c endpoint opts reply w' l r] assms
    by (simp add: getRateLimitInfo_def parse_rate_limit_def)
next
  fix name
  show "header_number r name = None \<longleftrightarrow> headers_get r name = None \<or> headers_get r name = Some []"
    by (rule header_number_None)
next
  fix name v
  assume "headers_get r name = Some v \<and> v \<noteq> []"
  then show "header_number r name = Some (parseInt v)"
    by (simp add: header_number_Some)
next
  show "getRateLimitInfo (new_client key) = \<lparr>remaining = None, limit = None, reset = None\<rparr>"
    by (simp add: getRateLimitInfo_def new_client_def)
qed

lemma parseInt_150: "parseInt ''150'' = JNum 150"
  by (simp add: parseInt_def is_space_def is_digit_def nat_of_digits_def digit_val_def)

theorem rate_limit_info_overwritten_witness:
  "getRateLimitInfo
     (fst (snd (request (respond 120 empty_quota) ''/nps/score'' no_options (new_client ''key'', ())))) =
     \<lparr>remaining = None, limit = Some (JNum 150), reset = None\<rparr>"
proof -
  have n: "respond 120 empty_quota () (fetch_request (new_client ''key'') ''/nps/score'' no_options) =
      (\<lparr>latency = Some 120, outcome = Inr empty_quota\<rparr>, ())"
    by (simp add: respond_def)
  have l: "latency \<lparr>latency = Some 120, outcome = Inr empty_quota\<rparr> = Some 120"
    and t: "120 < the_timeout no_options"
    and out: "outcome \<lparr>latency = Some 120, outcome = Inr empty_quota\<rparr> = Inr empty_quota"
    by (simp_all add: the_timeout_def no_options_def)
  note inst = rate_limit_info_overwritten [of "respond 120 empty_quota" "()" "new_client ''key''"
        "''/nps/score''" no_options "\<lparr>latency = Some 120, outcome = Inr empty_quota\<rparr>" "()" 120
        empty_quota, OF n l t out]
  have "header_number empty_quota ''X-RateLimit-Remaining'' = None"
    and "header_number empty_quota ''X-RateLimit-Limit'' = Some (JNum 150)"
    and "header_number empty_quota ''X-RateLimit-Reset'' = None"
    by (simp_all add: header_number_def empty_quota_def parseInt_150)
  with inst show ?thesis by simp
qed

section \<open>Properties of bulk creation\<close>

lemma dedupe_Cons:
  "dedupe toLowerCase seen (c # cs) =
     (if has_email c \<and> email_key toLowerCase c \<notin> seen then c # dedupe toLowerCase (insert (email_key toLowerCase c) seen) cs
      else dedupe toLowerCase seen cs)"
  by (simp add: has_email_def email_key_def truthy_def split: option.splits)

lemma dedupe_keys_unseen: "d \<in> set (dedupe toLowerCase seen cs) \<Longrightarrow> email_key toLowerCase d \<notin> seen"
  by (induction cs arbitrary: seen) (auto simp: dedupe_Cons simp del: dedupe.simps(2) split: if_splits)

lemma dedupe_has_email: "d \<in> set (dedupe toLowerCase seen cs) \<Longrightarrow> has_email d"
  by (induction cs arbitrary: seen) (auto simp: dedupe_Cons simp del: dedupe.simps(2) split: if_splits)

lemma dedupe_distinct: "distinct (map (email_key toLowerCase) (dedupe toLowerCase seen cs))"
  by (induction cs arbitrary: seen)
     (auto simp: dedupe_Cons simp del: dedupe.simps(2) dest: dedupe_keys_unseen)

lemma dedupe_keys:
  "set (map (email_key toLowerCase) (dedupe toLowerCase seen cs)) = email_key toLowerCase ` {c \<in> set cs. has_email c} - seen"
  by (induction cs arbitrary: seen) (auto simp: dedupe_Cons simp del: dedupe.simps(2))

lemma dedupe_subseq: "subseq (dedupe toLowerCase seen cs) cs"
  by (induction cs arbitrary: seen) (auto simp: dedupe_Cons simp del: dedupe.simps(2))

lemma dedupe_first:
  "d \<in> set (dedupe toLowerCase seen cs) \<Longrightarrow> find (\<lambda>c. has_email c \<and> email_key toLowerCase c = email_key toLowerCase d) cs = Some d"
proof (induction cs arbitrary: seen)
  case Nil
  then show ?case by simp
next
  case (Cons c cs)
  show ?case
  proof (cases "has_email c \<and> email_key toLowerCase c \<notin> seen")
    case True
    with Cons.prems have "d = c \<or> d \<in> set (dedupe toLowerCase (insert (email_key toLowerCase c) seen) cs)"
      by (simp add: dedupe_Cons del: dedupe.simps(2))
    then show ?thesis
    proof
      assume "d = c"
      with True show ?thesis by simp
    next
      assume d: "d \<in> set (dedupe toLowerCase (insert (email_key toLowerCase c) seen) cs)"
      then have "email_key toLowerCase d \<noteq> email_key toLowerCase c"
        using dedupe_keys_unseen by fastforce
      with Cons.IH [OF d] show ?thesis by auto
    qed
  next
    case False
    with Cons.prems have d: "d \<in> set (dedupe toLowerCase seen cs)"
      by (simp add: dedupe_Cons del: dedupe.simps(2))
    then have "email_key toLowerCase d \<notin> seen" by (rule dedupe_keys_unseen)
    with False have "\<not> (has_email c \<and> email_key toLowerCase c = email_key toLowerCase d)" by auto
    with Cons.IH [OF d] show ?thesis by auto
  qed
qed

lemma dedupe_filter: "dedupe toLowerCase seen (filter has_email cs) = dedupe toLowerCase seen cs"
  by (induction cs arbitrary: seen) (auto simp: dedupe_Cons simp del: dedupe.simps(2))

lemma dedupe_none: "\<forall>c \<in> set cs. \<not> has_email c \<Longrightarrow> dedupe toLowerCase seen cs = []"
  by (induction cs arbitrary: seen) (auto simp: dedupe_Cons simp del: dedupe.simps(2))

lemma dedupe_id:
  "\<forall>c \<in> set cs. has_email c \<Longrightarrow> distinct (map (email_key toLowerCase) cs) \<Longrightarrow> email_key toLowerCase ` set cs \<inter> seen = {}
     \<Longrightarrow> dedupe toLowerCase seen cs = cs"
  by (induction cs arbitrary: seen) (auto simp: dedupe_Cons simp del: dedupe.simps(2))

lemma chunks_Nil [simp]: "chunks n [] = []"
  by (subst chunks.simps) simp

lemma chunks_zero [simp]: "chunks 0 xs = []"
  by (subst chunks.simps) simp

lemma chunks_step: "0 < n \<Longrightarrow> xs \<noteq> [] \<Longrightarrow> chunks n xs = take n xs # chunks n (drop n xs)"
  by (subst chunks.simps) simp

lemma concat_chunks: "0 < n \<Longrightarrow> concat (chunks n xs) = xs"
proof (induction n xs rule: chunks.induct)
  case (1 n xs)
  then show ?case by (cases "xs = []") (simp_all add: chunks_step)
qed

lemma chunks_lengths: "ch \<in> set (chunks n xs) \<Longrightarrow> 0 < length ch \<and> length ch \<le> n"
proof (induction n xs rule: chunks.induct)
  case (1 n xs)
  show ?case
  proof (cases "n = 0 \<or> xs = []")
    case True
    with "1.prems" show ?thesis by auto
  next
    case False
    with "1.prems" have "ch = take n xs \<or> ch \<in> set (chunks n (drop n xs))"
      by (simp add: chunks_step)
    with False "1.IH" show ?thesis by auto
  qed
qed

lemma ceil_div_step:
  assumes "0 < (n::nat)" and "0 < m"
  shows "Suc ((m - n + n - 1) div n) = (m + n - 1) div n"
proof (cases "n \<le> m")
  case True
  then have a: "m - n + n - 1 = m - 1" by simp
  from assms have b: "m + n - 1 = (m - 1) + n" by simp
  from assms(1) have "((m - 1) + n) div n = Suc ((m - 1) div n)"
    by (subst div_add_self2) simp_all
  then show ?thesis unfolding a b by (rule sym)
next
  case False
  then have a: "m - n + n - 1 = n - 1" by simp
  from assms have z: "(n - 1) div n = 0" by simp
  obtain k where k: "m + n - 1 = k + n" and kn: "k < n"
    using False assms by (intro that [of "m - 1"]) simp_all
  from assms(1) have "(k + n) div n = Suc (k div n)"
    by (subst div_add_self2) simp_all
  with kn have "(k + n) div n = Suc 0" by simp
  then show ?thesis unfolding a z k by (rule sym)
qed

lemma length_chunks: "0 < n \<Longrightarrow> length (chunks n xs) = (length xs + n - 1) div n"
proof (induction n xs rule: chunks.induct)
  case (1 n xs)
  show ?case
  proof (cases "xs = []")
    case True
    with "1.prems" show ?thesis by simp
  next
    case False
    with "1.prems" have "\<not> (n = 0 \<or> xs = [])" by simp
    then have IH: "length (chunks n (drop n xs)) = (length (drop n xs) + n - 1) div n"
      using "1.prems" by (rule "1.IH")
    have "length (chunks n xs) = Suc (length (chunks n (drop n xs)))"
      by (simp only: chunks_step [OF "1.prems" False] list.size length_Cons)
    also have "\<dots> = Suc ((length xs - n + n - 1) div n)"
      by (simp only: IH length_drop)
    also have "\<dots> = (length xs + n - 1) div n"
      using "1.prems" False by (intro ceil_div_step) simp_all
    finally show ?thesis .
  qed
qed

lemma chunks_two:
  assumes "n < length xs" and "length xs \<le> 2 * n"
  shows "chunks n xs = [take n xs, drop n xs]"
proof -
  from assms have n: "0 < n \<or> n = 0" and xs: "xs \<noteq> []" by auto
  show ?thesis
  proof (cases "n = 0")
    case True
    with assms show ?thesis by simp
  next
    case False
    then have pos: "0 < n" by simp
    from assms have d: "drop n xs \<noteq> []" by simp
    from assms have t: "take n (drop n xs) = drop n xs" by simp
    from assms have e: "drop (n + n) xs = []" by simp
    show ?thesis
      by (simp add: chunks_step [OF pos xs] chunks_step [OF pos d] t e)
  qed
qed

lemma slice_chunk: "slice d i (i + n) = take n (drop i d)"
  by (simp add: slice_def)

lemma loop_fold:
  "createCustomers_loop net d i st = foldl (submit_chunk net) st (chunks chunkSize (drop i d))"
proof (induction net d i st rule: createCustomers_loop.induct)
  case (1 net d i st)
  show ?case
  proof (cases "i < length d")
    case True
    then have ne: "drop i d \<noteq> []" by simp
    have pos: "0 < chunkSize" by (simp add: chunkSize_def)
    have dd: "drop chunkSize (drop i d) = drop (i + chunkSize) d"
      by (simp add: add.commute)
    have "createCustomers_loop net d i st =
        createCustomers_loop net d (i + chunkSize) (submit_chunk net st (slice d i (i + chunkSize)))"
      using True by (subst createCustomers_loop.simps) (simp only: if_True)
    also have "\<dots> = foldl (submit_chunk net) (submit_chunk net st (slice d i (i + chunkSize)))
                       (chunks chunkSize (drop (i + chunkSize) d))"
      using True by (rule "1.IH")
    also have "\<dots> = foldl (submit_chunk net) st (chunks chunkSize (drop i d))"
      by (simp only: chunks_step [OF pos ne] dd slice_chunk foldl_Cons)
    finally show ?thesis .
  next
    case False
    then show ?thesis by (subst createCustomers_loop.simps) simp
  qed
qed

lemma chunks_nonempty: "chunks n xs \<noteq> [] \<Longrightarrow> xs \<noteq> []"
  by auto

lemma chunks_full: "ch \<in> set (butlast (chunks n xs)) \<Longrightarrow> length ch = n"
proof (induction n xs rule: chunks.induct)
  case (1 n xs)
  show ?case
  proof (cases "n = 0 \<or> xs = []")
    case True
    with "1.prems" show ?thesis by auto
  next
    case False
    then have pos: "0 < n" and ne: "xs \<noteq> []" by simp_all
    show ?thesis
    proof (cases "chunks n (drop n xs) = []")
      case True
      with "1.prems" show ?thesis by (simp add: chunks_step [OF pos ne])
    next
      case rest: False
      then have "drop n xs \<noteq> []" by (rule chunks_nonempty)
      then have full: "length (take n xs) = n" by simp
      from "1.prems" rest have "ch = take n xs \<or> ch \<in> set (butlast (chunks n (drop n xs)))"
        by (simp add: chunks_step [OF pos ne])
      with full "1.IH" [OF False] show ?thesis by auto
    qed
  qed
qed

lemma submit_chunk_eq:
  "submit_chunk net ((rows, sc, ec), st) chunk =
     (case request net ''/customers'' (post_customers chunk) st of
        (r, st') \<Rightarrow> ((rows @ mark_chunk chunk r, sc + succeeded chunk r, ec + failed chunk r), st'))"
  by (cases st)
     (simp add: submit_chunk_def mark_chunk_def succeeded_def failed_def split: prod.splits sum.splits)

lemma fold_chunks:
  "foldl (submit_chunk net) ((rows, sc, ec), st) chs =
     ((rows @ concat (map2 mark_chunk chs (chunk_outcomes net st chs)),
       sc + sum_list (map2 succeeded chs (chunk_outcomes net st chs)),
       ec + sum_list (map2 failed chs (chunk_outcomes net st chs))),
      after_chunks net st chs)"
proof (induction chs arbitrary: rows sc ec st)
  case Nil
  then show ?case by simp
next
  case (Cons ch chs)
  obtain r st' where r: "request net ''/customers'' (post_customers ch) st = (r, st')"
    by (cases "request net ''/customers'' (post_customers ch) st")
  show ?case
    by (simp add: submit_chunk_eq r Cons.IH)
qed

lemma createCustomers_eq:
  "createCustomers net toLowerCase cs (c, cache, w) =
     (\<lparr>write_operation = True, action = ''create-customers'',
       success_count = sum_list (map2 succeeded (chunks 1000 (dedupe toLowerCase {} cs))
                                   (chunk_outcomes net (c, w) (chunks 1000 (dedupe toLowerCase {} cs)))),
       error_count = sum_list (map2 failed (chunks 1000 (dedupe toLowerCase {} cs))
                                 (chunk_outcomes net (c, w) (chunks 1000 (dedupe toLowerCase {} cs)))),
       results = concat (map2 mark_chunk (chunks 1000 (dedupe toLowerCase {} cs))
                           (chunk_outcomes net (c, w) (chunks 1000 (dedupe toLowerCase {} cs))))\<rparr>,
      fst (after_chunks net (c, w) (chunks 1000 (dedupe toLowerCase {} cs))),
      snd (invalidatePattern customer_pattern cache),
      snd (after_chunks net (c, w) (chunks 1000 (dedupe toLowerCase {} cs))))"
proof -
  have "createCustomers_loop net (dedupe toLowerCase {} cs) 0 (([], 0, 0), c, w) =
        foldl (submit_chunk net) (([], 0, 0), (c, w)) (chunks 1000 (dedupe toLowerCase {} cs))"
    by (simp only: loop_fold drop_0 chunkSize_def)
  then show ?thesis
    by (simp add: createCustomers_def fold_chunks split: prod.splits)
qed

lemma fetch_request_apiKey: "apiKey c' = apiKey c \<Longrightarrow> fetch_request c' ep opts = fetch_request c ep opts"
  by (simp add: fetch_request_def)

lemma request_apiKey: "apiKey (fst (snd (request net ep opts (c, w)))) = apiKey c"
  by (simp add: request_def Let_def split: prod.splits sum.splits)

lemma request_recording:
  "request (recording net) ep opts (c, (log, w)) =
     (case request net ep opts (c, w) of
        (r, c', w') \<Rightarrow> (r, c', (log @ [fetch_request c ep opts], w')))"
  by (simp add: request_def fetch_def recording_def Let_def split: prod.splits sum.splits option.splits)

lemma chunk_outcomes_recording:
  "chunk_outcomes (recording net) (c, (log, w)) chs = chunk_outcomes net (c, w) chs"
proof (induction chs arbitrary: c log w)
  case Nil
  then show ?case by simp
next
  case (Cons ch chs)
  obtain r c' w' where r: "request net ''/customers'' (post_customers ch) (c, w) = (r, c', w')"
    by (cases "request net ''/customers'' (post_customers ch) (c, w)")
  show ?case by (simp add: request_recording r Cons.IH)
qed

lemma after_chunks_recording:
  "after_chunks (recording net) (c, (log, w)) chs =
     (fst (after_chunks net (c, w) chs),
      (log @ map (\<lambda>ch. fetch_request c ''/customers'' (post_customers ch)) chs,
       snd (after_chunks net (c, w) chs)))"
proof (induction chs arbitrary: c log w)
  case Nil
  then show ?case by simp
next
  case (Cons ch chs)
  obtain r c' w' where r: "request net ''/customers'' (post_customers ch) (c, w) = (r, c', w')"
    by (cases "request net ''/customers'' (post_customers ch) (c, w)")
  have "apiKey c' = apiKey c"
    using request_apiKey [of net "''/customers''" "post_customers ch" c w] by (simp add: r)
  then have same: "\<And>x. fetch_request c' ''/customers'' (post_customers x) =
                       fetch_request c ''/customers'' (post_customers x)"
    by (rule fetch_request_apiKey)
  show ?case by (simp add: request_recording r Cons.IH same)
qed

lemma length_chunk_outcomes [simp]: "length (chunk_outcomes net st chs) = length chs"
  by (induction chs arbitrary: st) (auto split: prod.splits)

lemma row_email_mark: "map row_email (mark_chunk ch r) = map email ch"
  by (cases r) (simp_all add: mark_chunk_def row_ok_def row_failed_def)

lemma rows_emails:
  "length os = length chs \<Longrightarrow> map row_email (concat (map2 mark_chunk chs os)) = map email (concat chs)"
proof (induction chs arbitrary: os)
  case Nil
  then show ?case by simp
next
  case (Cons ch chs)
  then obtain r rs where os: "os = r # rs" and "length rs = length chs"
    by (cases os) auto
  with Cons.IH show ?case by (simp add: row_email_mark)
qed

lemma counts_total:
  "length os = length chs \<Longrightarrow>
     sum_list (map2 succeeded chs os) + sum_list (map2 failed chs os) = length (concat chs)"
proof (induction chs arbitrary: os)
  case Nil
  then show ?case by simp
next
  case (Cons ch chs)
  then obtain r rs where os: "os = r # rs" and l: "length rs = length chs"
    by (cases os) auto
  have "succeeded ch r + failed ch r = length ch"
    by (cases r) (simp_all add: succeeded_def failed_def)
  with Cons.IH [OF l] os show ?case by simp
qed

lemma counts_all_failed:
  "length os = length chs \<Longrightarrow> \<forall>r \<in> set os. isl r \<Longrightarrow>
     sum_list (map2 succeeded chs os) = 0 \<and> sum_list (map2 failed chs os) = length (concat chs)"
proof (induction chs arbitrary: os)
  case Nil
  then show ?case by simp
next
  case (Cons ch chs)
  then obtain r rs where os: "os = r # rs" and l: "length rs = length chs"
    by (cases os) auto
  with Cons.prems have "isl r" and rs: "\<forall>r \<in> set rs. isl r" by simp_all
  then have "succeeded ch r = 0" and "failed ch r = length ch"
    by (cases r; simp add: succeeded_def failed_def)+
  with Cons.IH [OF l rs] os show ?case by simp
qed

lemma map_of_filter_keys:
  "map_of (filter (\<lambda>(k, e). \<not> p k) al) key = (if p key then None else map_of al key)"
  by (induction al) auto

lemma lookup_invalidatePattern:
  "lookup (snd (invalidatePattern p cache)) key = (if p key then None else lookup cache key)"
  by (simp add: lookup_def invalidatePattern_def map_of_filter_keys)

lemma createCustomers_cache:
  "fst (snd (snd (createCustomers net toLowerCase cs (c, cache, w)))) = snd (invalidatePattern customer_pattern cache)"
  by (simp add: createCustomers_eq)

lemma createCustomers_log:
  "fst (snd (snd (snd (createCustomers (recording net) toLowerCase cs (c, cache, ([], w)))))) =
     map (\<lambda>ch. fetch_request c ''/customers'' (post_customers ch)) (chunks 1000 (dedupe toLowerCase {} cs))"
  by (simp add: createCustomers_eq after_chunks_recording)

lemma length_fifteen_hundred: "length fifteen_hundred = 1500"
  by (simp add: fifteen_hundred_def)

lemma ascii_lower_a: "ascii_lower_char CHR ''a'' = CHR ''a''"
  by (simp add: ascii_lower_char_def)

lemma dedupe_fifteen_hundred: "dedupe ascii_lower {} fifteen_hundred = fifteen_hundred"
proof (rule dedupe_id)
  show "\<forall>c \<in> set fifteen_hundred. has_email c"
    by (auto simp: fifteen_hundred_def has_email_def truthy_def customer_of_def)
  have "map (email_key ascii_lower) fifteen_hundred = map (\<lambda>n. replicate (Suc n) CHR ''a'') [0..<1500]"
    by (simp add: fifteen_hundred_def email_key_def customer_of_def ascii_lower_def ascii_lower_a
             del: replicate_Suc)
  moreover have "inj_on (\<lambda>n. replicate (Suc n) CHR ''a'') (set [0..<1500])"
  proof (rule inj_onI)
    fix m n :: nat
    assume "replicate (Suc m) CHR ''a'' = replicate (Suc n) CHR ''a''"
    then have "length (replicate (Suc m) CHR ''a'') = length (replicate (Suc n) CHR ''a'')"
      by (rule arg_cong)
    then show "m = n" by simp
  qed
  ultimately show "distinct (map (email_key ascii_lower) fifteen_hundred)"
    by (simp add: distinct_map del: replicate_Suc)
  show "email_key ascii_lower ` set fifteen_hundred \<inter> {} = {}" by simp
qed

lemma ascii_lower_upper: "ascii_lower ''A@X.COM'' = ''a@x.com''"
  by (simp add: ascii_lower_def ascii_lower_char_def)

lemma ascii_lower_plain: "ascii_lower ''a@x.com'' = ''a@x.com''" "ascii_lower ''b@x.com'' = ''b@x.com''"
  by (simp_all add: ascii_lower_def ascii_lower_char_def)

lemma dedupe_case_variants:
  "dedupe ascii_lower {} case_variants = [customer_of (Some ''a@x.com''), customer_of (Some ''b@x.com'')]"
  by (simp add: case_variants_def customer_of_def ascii_lower_upper ascii_lower_plain)

lemma first_call_only_outcomes:
  "chunk_outcomes first_call_only (c, 0) [a, b] =
     [Inr ''{}'', Inl (Error ''Retently API error (503): Service Unavailable'')]"
  by (simp add: request_def fetch_def first_call_only_def created_def unavailable_def the_timeout_def
        post_customers_def no_options_def ok_def api_error_message_def response_text_def
        string_of_nat_eval Let_def)

lemma created_outcomes: "chunk_outcomes (respond 10 created) (c, ()) [a] = [Inr ''{}'']"
  by (simp add: request_def fetch_def respond_def created_def the_timeout_def
        post_customers_def no_options_def ok_def Let_def)

lemma post_request:
  "fetch_request c ''/customers'' (post_customers ch) =
     \<lparr>url = ''https://app.retently.com/api/v2/customers'', searchParams = [], req_method = ''POST'',
      req_headers = [(''X-Api-Key'', apiKey c), (''Content-Type'', ''application/json''),
                     (''Accept'', ''application/json'')],
      req_body = Some (CustomersBody ch)\<rparr>"
  by (simp add: fetch_request_def post_customers_def no_options_def the_method_def the_params_def
        baseUrl_def)

lemma option_keys:
  assumes "\<forall>x \<in> set xs. has_email x"
  shows "map (\<lambda>x. map_option toLowerCase (email x)) xs = map (\<lambda>x. Some (email_key toLowerCase x)) xs"
  using assms by (induction xs) (auto simp: has_email_def truthy_def email_key_def split: option.splits)

lemma option_key_eq:
  "has_email x \<Longrightarrow> has_email d \<Longrightarrow>
     (map_option toLowerCase (email x) = map_option toLowerCase (email d)) =
     (email_key toLowerCase x = email_key toLowerCase d)"
  by (auto simp: has_email_def truthy_def email_key_def split: option.splits)

lemma dedupe_option_keys:
  "distinct (map (\<lambda>x. map_option toLowerCase (email x)) (dedupe toLowerCase {} cs))"
  "set (map (\<lambda>x. map_option toLowerCase (email x)) (dedupe toLowerCase {} cs)) =
     (\<lambda>x. map_option toLowerCase (email x)) ` {x \<in> set cs. has_email x}"
proof -
  have all: "\<forall>x \<in> set (dedupe toLowerCase {} cs). has_email x"
    using dedupe_has_email by blast
  have "distinct (map (\<lambda>x. Some (email_key toLowerCase x)) (dedupe toLowerCase {} cs))"
    using dedupe_distinct [of toLowerCase "{}" cs]
    by (simp add: distinct_map inj_on_def)
  then show "distinct (map (\<lambda>x. map_option toLowerCase (email x)) (dedupe toLowerCase {} cs))"
    by (simp only: option_keys [OF all])
  have "set (map (\<lambda>x. Some (email_key toLowerCase x)) (dedupe toLowerCase {} cs)) =
        Some ` set (map (email_key toLowerCase) (dedupe toLowerCase {} cs))"
    by auto
  also have "\<dots> = Some ` (email_key toLowerCase ` {x \<in> set cs. has_email x})"
    by (simp only: dedupe_keys Diff_empty)
  also have "\<dots> = (\<lambda>x. Some (email_key toLowerCase x)) ` {x \<in> set cs. has_email x}"
    by (simp add: image_image)
  also have "\<dots> = (\<lambda>x. map_option toLowerCase (email x)) ` {x \<in> set cs. has_email x}"
    by (rule image_cong)
       (auto simp: has_email_def truthy_def email_key_def split: option.splits)
  finally show "set (map (\<lambda>x. map_option toLowerCase (email x)) (dedupe toLowerCase {} cs)) =
     (\<lambda>x. map_option toLowerCase (email x)) ` {x \<in> set cs. has_email x}"
    by (simp only: option_keys [OF all])
qed

lemma dedupe_first_option:
  assumes "d \<in> set (dedupe toLowerCase {} cs)"
  shows "find (\<lambda>x. has_email x \<and> map_option toLowerCase (email x) = map_option toLowerCase (email d)) cs =
         Some d"
proof -
  have d: "has_email d" using assms by (rule dedupe_has_email)
  have "(\<lambda>x. has_email x \<and> map_option toLowerCase (email x) = map_option toLowerCase (email d)) =
        (\<lambda>x. has_email x \<and> email_key toLowerCase x = email_key toLowerCase d)"
    using d by (auto simp: option_key_eq)
  with dedupe_first [OF assms] show ?thesis by simp
qed

lemma mark_chunk_rows:
  "mark_chunk = (\<lambda>ch r. case r of
       Inl e \<Rightarrow> map (\<lambda>x. \<lparr>row_email = email x, success = False, error = Some (message e)\<rparr>) ch
     | Inr y \<Rightarrow> map (\<lambda>x. \<lparr>row_email = email x, success = True, error = None\<rparr>) ch)"
  by (intro ext) (simp add: mark_chunk_def row_ok_def row_failed_def split: sum.splits)

lemma count_functions:
  "succeeded = (\<lambda>ch r. case r of Inl e \<Rightarrow> 0 | Inr y \<Rightarrow> length ch)"
  "failed = (\<lambda>ch r. case r of Inl e \<Rightarrow> length ch | Inr y \<Rightarrow> 0)"
  by (intro ext; simp add: succeeded_def failed_def split: sum.splits)+

text \<open>
  Claim C4. \<open>createCustomers\<close> keeps, in input order, the first entry of every lower-cased
  email and drops the later ones (and the entries without email). The kept entries are
  split into consecutive chunks of 1000, the last one possibly shorter, so that 1500 kept
  entries give the chunks of the first 1000 and the last 500. Each chunk is sent by one
  POST request to \<open>/customers\<close> with the chunk as body, in order, and these are all the
  requests. The rows of a chunk whose request succeeded are successes without error; the
  rows of a chunk whose request failed have \<open>success = false\<close> and the message of that
  error, whatever happened to the other chunks. The counts add up the sizes of the chunks
  accordingly, and the call returns the result in every case.
\<close>

theorem createCustomers_bulk:
  "subseq (dedupe toLowerCase {} cs) cs
   \<and> distinct (map (\<lambda>x. map_option toLowerCase (email x)) (dedupe toLowerCase {} cs))
   \<and> set (map (\<lambda>x. map_option toLowerCase (email x)) (dedupe toLowerCase {} cs)) =
       (\<lambda>x. map_option toLowerCase (email x)) ` {x \<in> set cs. has_email x}
   \<and> (\<forall>d \<in> set (dedupe toLowerCase {} cs).
         has_email d \<and>
         find (\<lambda>x. has_email x \<and>
                   map_option toLowerCase (email x) = map_option toLowerCase (email d)) cs = Some d)
   \<and> concat (chunks 1000 (dedupe toLowerCase {} cs)) = dedupe toLowerCase {} cs
   \<and> (\<forall>ch \<in> set (chunks 1000 (dedupe toLowerCase {} cs)). 0 < length ch \<and> length ch \<le> 1000)
   \<and> (\<forall>ch \<in> set (butlast (chunks 1000 (dedupe toLowerCase {} cs))). length ch = 1000)
   \<and> (length (dedupe toLowerCase {} cs) = 1500 \<longrightarrow>
         chunks 1000 (dedupe toLowerCase {} cs) =
           [take 1000 (dedupe toLowerCase {} cs), drop 1000 (dedupe toLowerCase {} cs)])
   \<and> fst (snd (snd (snd (createCustomers (recording net) toLowerCase cs (c, cache, ([], w)))))) =
       map (\<lambda>ch. \<lparr>url = ''https://app.retently.com/api/v2/customers'', searchParams = [],
                   req_method = ''POST'',
                   req_headers = [(''X-Api-Key'', apiKey c), (''Content-Type'', ''application/json''),
                                  (''Accept'', ''application/json'')],
                   req_body = Some (CustomersBody ch)\<rparr>)
         (chunks 1000 (dedupe toLowerCase {} cs))
   \<and> createCustomers net toLowerCase cs (c, cache, w) =
       (\<lparr>write_operation = True, action = ''create-customers'',
         success_count =
           sum_list (map2 (\<lambda>ch r. case r of Inl e \<Rightarrow> 0 | Inr y \<Rightarrow> length ch)
                      (chunks 1000 (dedupe toLowerCase {} cs))
                      (chunk_outcomes net (c, w) (chunks 1000 (dedupe toLowerCase {} cs)))),
         error_count =
           sum_list (map2 (\<lambda>ch r. case r of Inl e \<Rightarrow> length ch | Inr y \<Rightarrow> 0)
                      (chunks 1000 (dedupe toLowerCase {} cs))
                      (chunk_outcomes net (c, w) (chunks 1000 (dedupe toLowerCase {} cs)))),
         results =
           concat (map2 (\<lambda>ch r. case r of
                           Inl e \<Rightarrow> map (\<lambda>x. \<lparr>row_email = email x, success = False,
                                                error = Some (message e)\<rparr>) ch
                         | Inr y \<Rightarrow> map (\<lambda>x. \<lparr>row_email = email x, success = True,
                                                error = None\<rparr>) ch)
                    (chunks 1000 (dedupe toLowerCase {} cs))
                    (chunk_outcomes net (c, w) (chunks 1000 (dedupe toLowerCase {} cs))))\<rparr>,
        fst (after_chunks net (c, w) (chunks 1000 (dedupe toLowerCase {} cs))),
        snd (invalidatePattern customer_pattern cache),
        snd (after_chunks net (c, w) (chunks 1000 (dedupe toLowerCase {} cs))))"
proof (intro conjI ballI impI)
  show "subseq (dedupe toLowerCase {} cs) cs" by (rule dedupe_subseq)
  show "distinct (map (\<lambda>x. map_option toLowerCase (email x)) (dedupe toLowerCase {} cs))"
    by (rule dedupe_option_keys)
  show "set (map (\<lambda>x. map_option toLowerCase (email x)) (dedupe toLowerCase {} cs)) =
       (\<lambda>x. map_option toLowerCase (email x)) ` {x \<in> set cs. has_email x}"
    by (rule dedupe_option_keys)
  show "concat (chunks 1000 (dedupe toLowerCase {} cs)) = dedupe toLowerCase {} cs"
    by (simp add: concat_chunks)
  show "fst (snd (snd (snd (createCustomers (recording net) toLowerCase cs (c, cache, ([], w)))))) =
       map (\<lambda>ch. \<lparr>url = ''https://app.retently.com/api/v2/customers'', searchParams = [],
                   req_method = ''POST'',
                   req_headers = [(''X-Api-Key'', apiKey c), (''Content-Type'', ''application/json''),
                                  (''Accept'', ''application/json'')],
                   req_body = Some (CustomersBody ch)\<rparr>)
         (chunks 1000 (dedupe toLowerCase {} cs))"
    by (simp only: createCustomers_log post_request)
  show "createCustomers net toLowerCase cs (c, cache, w) =
       (\<lparr>write_operation = True, action = ''create-customers'',
         success_count =
           sum_list (map2 (\<lambda>ch r. case r of Inl e \<Rightarrow> 0 | Inr y \<Rightarrow> length ch)
                      (chunks 1000 (dedupe toLowerCase {} cs))
                      (chunk_outcomes net (c, w) (chunks 1000 (dedupe toLowerCase {} cs)))),
         error_count =
           sum_list (map2 (\<lambda>ch r. case r of Inl e \<Rightarrow> length ch | Inr y \<Rightarrow> 0)
                      (chunks 1000 (dedupe toLowerCase {} cs))
                      (chunk_outcomes net (c, w) (chunks 1000 (dedupe toLowerCase {} cs)))),
         results =
           concat (map2 (\<lambda>ch r. case r of
                           Inl e \<Rightarrow> map (\<lambda>x. \<lparr>row_email = email x, success = False,
                                                error = Some (message e)\<rparr>) ch
                         | Inr y \<Rightarrow> map (\<lambda>x. \<lparr>row_email = email x, success = True,
                                                error = None\<rparr>) ch)
                    (chunks 1000 (dedupe toLowerCase {} cs))
                    (chunk_outcomes net (c, w) (chunks 1000 (dedupe toLowerCase {} cs))))\<rparr>,
        fst (after_chunks net (c, w) (chunks 1000 (dedupe toLowerCase {} cs))),
        snd (invalidatePattern customer_pattern cache),
        snd (after_chunks net (c, w) (chunks 1000 (dedupe toLowerCase {} cs))))"
    using createCustomers_eq [of net toLowerCase cs c cache w]
    unfolding mark_chunk_rows count_functions .
next
  fix d assume "d \<in> set (dedupe toLowerCase {} cs)"
  then show "has_email d" by (rule dedupe_has_email)
next
  fix d assume "d \<in> set (dedupe toLowerCase {} cs)"
  then show "find (\<lambda>x. has_email x \<and>
                   map_option toLowerCase (email x) = map_option toLowerCase (email d)) cs = Some d"
    by (rule dedupe_first_option)
next
  fix ch assume "ch \<in> set (chunks 1000 (dedupe toLowerCase {} cs))"
  then show "0 < length ch" and "length ch \<le> 1000" using chunks_lengths by blast+
next
  fix ch assume "ch \<in> set (butlast (chunks 1000 (dedupe toLowerCase {} cs)))"
  then show "length ch = 1000" by (rule chunks_full)
next
  assume "length (dedupe toLowerCase {} cs) = 1500"
  then show "chunks 1000 (dedupe toLowerCase {} cs) =
      [take 1000 (dedupe toLowerCase {} cs), drop 1000 (dedupe toLowerCase {} cs)]"
    by (intro chunks_two) simp_all
qed

theorem createCustomers_bulk_witness:
  "dedupe ascii_lower {} case_variants = [customer_of (Some ''a@x.com''), customer_of (Some ''b@x.com'')]
   \<and> fst (createCustomers (respond 10 created) ascii_lower case_variants
             (new_client ''key'', new_cache, ())) =
       \<lparr>write_operation = True, action = ''create-customers'', success_count = 2, error_count = 0,
        results = [\<lparr>row_email = Some ''a@x.com'', success = True, error = None\<rparr>,
                   \<lparr>row_email = Some ''b@x.com'', success = True, error = None\<rparr>]\<rparr>
   \<and> fst (createCustomers (recording first_call_only) ascii_lower fifteen_hundred
             (new_client ''key'', new_cache, ([], 0))) =
       \<lparr>write_operation = True, action = ''create-customers'', success_count = 1000, error_count = 500,
        results =
          map (\<lambda>x. \<lparr>row_email = email x, success = True, error = None\<rparr>) (take 1000 fifteen_hundred) @
          map (\<lambda>x. \<lparr>row_email = email x, success = False,
                     error = Some ''Retently API error (503): Service Unavailable''\<rparr>)
            (drop 1000 fifteen_hundred)\<rparr>
   \<and> map (\<lambda>req. (req_method req, req_body req))
         (fst (snd (snd (snd (createCustomers (recording first_call_only) ascii_lower fifteen_hundred
                                (new_client ''key'', new_cache, ([], 0))))))) =
       [(''POST'', Some (CustomersBody (take 1000 fifteen_hundred))),
        (''POST'', Some (CustomersBody (drop 1000 fifteen_hundred)))]"
proof -
  note small = createCustomers_bulk [where toLowerCase = ascii_lower and cs = case_variants
      and net = "respond 10 created" and c = "new_client ''key''"
      and cache = "new_cache :: string PluginCache" and w = "()"]
  note plain = createCustomers_bulk [where toLowerCase = ascii_lower and cs = fifteen_hundred
      and net = first_call_only and c = "new_client ''key''"
      and cache = "new_cache :: string PluginCache" and w = "0"]
  note logged = createCustomers_bulk [where toLowerCase = ascii_lower and cs = fifteen_hundred
      and net = "recording first_call_only" and c = "new_client ''key''"
      and cache = "new_cache :: string PluginCache" and w = "([], 0)"]
  have kept: "dedupe ascii_lower {} case_variants =
      [customer_of (Some ''a@x.com''), customer_of (Some ''b@x.com'')]"
    by (rule dedupe_case_variants)
  have one: "chunks 1000 [customer_of (Some ''a@x.com''), customer_of (Some ''b@x.com'')] =
      [[customer_of (Some ''a@x.com''), customer_of (Some ''b@x.com'')]]"
    by (subst chunks.simps) simp
  note run_small = small [THEN conjunct2, THEN conjunct2, THEN conjunct2, THEN conjunct2,
      THEN conjunct2, THEN conjunct2, THEN conjunct2, THEN conjunct2, THEN conjunct2]
  have a: "fst (createCustomers (respond 10 created) ascii_lower case_variants
             (new_client ''key'', new_cache, ())) =
       \<lparr>write_operation = True, action = ''create-customers'', success_count = 2, error_count = 0,
        results = [\<lparr>row_email = Some ''a@x.com'', success = True, error = None\<rparr>,
                   \<lparr>row_email = Some ''b@x.com'', success = True, error = None\<rparr>]\<rparr>"
    unfolding run_small kept one created_outcomes
    by (simp add: customer_of_def)
  from plain have ch: "chunks 1000 fifteen_hundred =
      [take 1000 fifteen_hundred, drop 1000 fifteen_hundred]"
    by (simp only: dedupe_fifteen_hundred length_fifteen_hundred)
  from plain have log: "fst (snd (snd (snd (createCustomers (recording first_call_only) ascii_lower
        fifteen_hundred (new_client ''key'', new_cache, ([], 0)))))) =
       map (\<lambda>ch. \<lparr>url = ''https://app.retently.com/api/v2/customers'', searchParams = [],
                   req_method = ''POST'',
                   req_headers = [(''X-Api-Key'', apiKey (new_client ''key'')),
                                  (''Content-Type'', ''application/json''),
                                  (''Accept'', ''application/json'')],
                   req_body = Some (CustomersBody ch)\<rparr>)
         [take 1000 fifteen_hundred, drop 1000 fifteen_hundred]"
    by (simp only: dedupe_fifteen_hundred ch)
  have out: "chunk_outcomes (recording first_call_only) (new_client ''key'', ([], 0))
               [take 1000 fifteen_hundred, drop 1000 fifteen_hundred] =
             [Inr ''{}'', Inl (Error ''Retently API error (503): Service Unavailable'')]"
    by (simp only: chunk_outcomes_recording first_call_only_outcomes)
  note run_logged = logged [THEN conjunct2, THEN conjunct2, THEN conjunct2, THEN conjunct2,
      THEN conjunct2, THEN conjunct2, THEN conjunct2, THEN conjunct2, THEN conjunct2]
  have b: "fst (createCustomers (recording first_call_only) ascii_lower fifteen_hundred
             (new_client ''key'', new_cache, ([], 0))) =
       \<lparr>write_operation = True, action = ''create-customers'', success_count = 1000, error_count = 500,
        results =
          map (\<lambda>x. \<lparr>row_email = email x, success = True, error = None\<rparr>) (take 1000 fifteen_hundred) @
          map (\<lambda>x. \<lparr>row_email = email x, success = False,
                     error = Some ''Retently API error (503): Service Unavailable''\<rparr>)
            (drop 1000 fifteen_hundred)\<rparr>"
    unfolding run_logged dedupe_fifteen_hundred ch out
    by (simp add: Error_def length_fifteen_hundred)
  have c: "map (\<lambda>req. (req_method req, req_body req))
         (fst (snd (snd (snd (createCustomers (recording first_call_only) ascii_lower fifteen_hundred
                                (new_client ''key'', new_cache, ([], 0))))))) =
       [(''POST'', Some (CustomersBody (take 1000 fifteen_hundred))),
        (''POST'', Some (CustomersBody (drop 1000 fifteen_hundred)))]"
    unfolding log by simp
  from kept a b c show ?thesis by (intro conjI)
qed

lemma createCustomers_filter:
  "createCustomers net toLowerCase (filter has_email cs) st = createCustomers net toLowerCase cs st"
  by (simp add: createCustomers_def dedupe_filter)

lemma createCustomers_rows:
  "map row_email (results (fst (createCustomers net toLowerCase cs (c, cache, w)))) = map email (dedupe toLowerCase {} cs)"
  by (simp add: createCustomers_eq rows_emails concat_chunks)

lemma createCustomers_counts:
  "success_count (fst (createCustomers net toLowerCase cs (c, cache, w))) +
   error_count (fst (createCustomers net toLowerCase cs (c, cache, w))) = length (dedupe toLowerCase {} cs)"
  by (simp add: createCustomers_eq counts_total concat_chunks)

lemma createCustomers_nothing:
  assumes "\<forall>x \<in> set cs. \<not> has_email x"
  shows "createCustomers net toLowerCase cs (c, cache, w) =
           (\<lparr>write_operation = True, action = ''create-customers'',
             success_count = 0, error_count = 0, results = []\<rparr>,
            c, snd (invalidatePattern customer_pattern cache), w)"
  by (simp add: createCustomers_eq dedupe_none [OF assms])

text \<open>
  Claim C9. An entry whose email is absent or empty has no effect on \<open>createCustomers\<close>:
  the call behaves as on the input without such entries. Every entry that is kept has an
  email, the requests carry kept entries only, there is one row per kept entry, and the two
  counts add up to the number of kept entries. On an input with no email at all no
  request is sent and the result has the counts 0 and no row.
\<close>

theorem createCustomers_drops_without_email:
  "createCustomers net toLowerCase cs (c, cache, w) = createCustomers net toLowerCase (filter has_email cs) (c, cache, w)
   \<and> (\<forall>d \<in> set (dedupe toLowerCase {} cs). has_email d)
   \<and> fst (snd (snd (snd (createCustomers (recording net) toLowerCase cs (c, cache, ([], w)))))) =
       map (\<lambda>ch. fetch_request c ''/customers'' (post_customers ch)) (chunks 1000 (dedupe toLowerCase {} cs))
   \<and> map row_email (results (fst (createCustomers net toLowerCase cs (c, cache, w)))) = map email (dedupe toLowerCase {} cs)
   \<and> success_count (fst (createCustomers net toLowerCase cs (c, cache, w))) +
       error_count (fst (createCustomers net toLowerCase cs (c, cache, w))) = length (dedupe toLowerCase {} cs)
   \<and> ((\<forall>x \<in> set cs. \<not> has_email x) \<longrightarrow>
         createCustomers (recording net) toLowerCase cs (c, cache, ([], w)) =
           (\<lparr>write_operation = True, action = ''create-customers'',
             success_count = 0, error_count = 0, results = []\<rparr>,
            c, snd (invalidatePattern customer_pattern cache), ([], w)))"
proof (intro conjI ballI impI)
  show "createCustomers net toLowerCase cs (c, cache, w) = createCustomers net toLowerCase (filter has_email cs) (c, cache, w)"
    by (simp only: createCustomers_filter)
  show "fst (snd (snd (snd (createCustomers (recording net) toLowerCase cs (c, cache, ([], w)))))) =
       map (\<lambda>ch. fetch_request c ''/customers'' (post_customers ch)) (chunks 1000 (dedupe toLowerCase {} cs))"
    by (rule createCustomers_log)
  show "map row_email (results (fst (createCustomers net toLowerCase cs (c, cache, w)))) = map email (dedupe toLowerCase {} cs)"
    by (rule createCustomers_rows)
  show "success_count (fst (createCustomers net toLowerCase cs (c, cache, w))) +
       error_count (fst (createCustomers net toLowerCase cs (c, cache, w))) = length (dedupe toLowerCase {} cs)"
    by (rule createCustomers_counts)
next
  fix d assume "d \<in> set (dedupe toLowerCase {} cs)"
  then show "has_email d" by (rule dedupe_has_email)
next
  assume "\<forall>x \<in> set cs. \<not> has_email x"
  then show "createCustomers (recording net) toLowerCase cs (c, cache, ([], w)) =
           (\<lparr>write_operation = True, action = ''create-customers'',
             success_count = 0, error_count = 0, results = []\<rparr>,
            c, snd (invalidatePattern customer_pattern cache), ([], w))"
    by (rule createCustomers_nothing)
qed

theorem createCustomers_drops_without_email_witness:
  "createCustomers (recording silent_network) ascii_lower [customer_of None, customer_of (Some '''')]
     (new_client ''key'', warm_cache, ([], ())) =
     (\<lparr>write_operation = True, action = ''create-customers'',
       success_count = 0, error_count = 0, results = []\<rparr>,
      new_client ''key'', snd (invalidatePattern customer_pattern warm_cache), ([], ()))"
proof -
  have "\<forall>x \<in> set [customer_of None, customer_of (Some '''')]. \<not> has_email x"
    by (simp add: has_email_def truthy_def customer_of_def)
  with createCustomers_drops_without_email [where net = silent_network and toLowerCase = ascii_lower
         and cs = "[customer_of None, customer_of (Some '''')]" and c = "new_client ''key''"
         and cache = warm_cache and w = "()"]
  show ?thesis by blast
qed

lemma customer_keys_match:
  "customer_pattern (createCacheKey ''customers'' ps)" "customer_pattern (createCacheKey ''customer'' ps)"
  by (simp_all add: customer_pattern_def createCacheKey_def)

text \<open>
  Claim C10. Whatever the requests of the chunks did, \<open>createCustomers\<close> ends with the
  invalidation of the pattern \<open>/^customer/\<close>: afterwards no key that starts with
  \<open>customer\<close> is stored and every other key is as before. This holds in particular when
  every chunk failed, with no success and as many errors as entries kept.
\<close>

theorem createCustomers_always_invalidates:
  "fst (snd (snd (createCustomers net toLowerCase cs (c, cache, w)))) = snd (invalidatePattern customer_pattern cache)
   \<and> (\<forall>key. prefix ''customer'' key \<longrightarrow>
         lookup (fst (snd (snd (createCustomers net toLowerCase cs (c, cache, w))))) key = None)
   \<and> (\<forall>key. \<not> prefix ''customer'' key \<longrightarrow>
         lookup (fst (snd (snd (createCustomers net toLowerCase cs (c, cache, w))))) key = lookup cache key)
   \<and> ((\<forall>r \<in> set (chunk_outcomes net (c, w) (chunks 1000 (dedupe toLowerCase {} cs))). isl r) \<longrightarrow>
         success_count (fst (createCustomers net toLowerCase cs (c, cache, w))) = 0 \<and>
         error_count (fst (createCustomers net toLowerCase cs (c, cache, w))) = length (dedupe toLowerCase {} cs) \<and>
         (\<forall>key. prefix ''customer'' key \<longrightarrow>
            lookup (fst (snd (snd (createCustomers net toLowerCase cs (c, cache, w))))) key = None))"
proof -
  have cache': "fst (snd (snd (createCustomers net toLowerCase cs (c, cache, w)))) =
        snd (invalidatePattern customer_pattern cache)"
    by (rule createCustomers_cache)
  have gone: "lookup (fst (snd (snd (createCustomers net toLowerCase cs (c, cache, w))))) key = None"
    if "prefix ''customer'' key" for key
    using that by (simp add: cache' lookup_invalidatePattern customer_pattern_def)
  have kept: "lookup (fst (snd (snd (createCustomers net toLowerCase cs (c, cache, w))))) key = lookup cache key"
    if "\<not> prefix ''customer'' key" for key
    using that by (simp add: cache' lookup_invalidatePattern customer_pattern_def)
  have failed: "success_count (fst (createCustomers net toLowerCase cs (c, cache, w))) = 0 \<and>
         error_count (fst (createCustomers net toLowerCase cs (c, cache, w))) = length (dedupe toLowerCase {} cs)"
    if "\<forall>r \<in> set (chunk_outcomes net (c, w) (chunks 1000 (dedupe toLowerCase {} cs))). isl r"
    using counts_all_failed [OF _ that, of "chunks 1000 (dedupe toLowerCase {} cs)"]
    by (simp add: createCustomers_eq concat_chunks)
  from cache' gone kept failed show ?thesis by blast
qed

lemma chunks_single: "xs \<noteq> [] \<Longrightarrow> length xs \<le> n \<Longrightarrow> chunks n xs = [xs]"
  by (subst chunks.simps) (cases xs; auto)

lemma silent_outcomes:
  "chunk_outcomes silent_network (c, ()) [ch] = [Inl (Error ''Request timeout after 30000ms: /customers'')]"
  by (simp add: request_def fetch_def silent_network_def the_timeout_def post_customers_def
        no_options_def timeout_message_def string_of_nat_eval)

theorem createCustomers_always_invalidates_witness:
  "success_count (fst (createCustomers silent_network ascii_lower [customer_of (Some ''a@x.com'')]
                         (new_client ''key'', warm_cache, ()))) = 0
   \<and> error_count (fst (createCustomers silent_network ascii_lower [customer_of (Some ''a@x.com'')]
                         (new_client ''key'', warm_cache, ()))) = 1
   \<and> lookup (fst (snd (snd (createCustomers silent_network ascii_lower [customer_of (Some ''a@x.com'')]
                         (new_client ''key'', warm_cache, ()))))) customers_page_key = None
   \<and> lookup (fst (snd (snd (createCustomers silent_network ascii_lower [customer_of (Some ''a@x.com'')]
                         (new_client ''key'', warm_cache, ()))))) customer_42_key = None
   \<and> lookup (fst (snd (snd (createCustomers silent_network ascii_lower [customer_of (Some ''a@x.com'')]
                         (new_client ''key'', warm_cache, ()))))) ''nps_score'' =
       Some \<lparr>entry_value = ''score'', expiresAt = 3600000\<rparr>"
proof -
  have d: "dedupe ascii_lower {} [customer_of (Some ''a@x.com'')] = [customer_of (Some ''a@x.com'')]"
    by (simp add: customer_of_def)
  have ch: "chunks 1000 [customer_of (Some ''a@x.com'')] = [[customer_of (Some ''a@x.com'')]]"
    by (simp add: chunks_single)
  have all: "\<forall>r \<in> set (chunk_outcomes silent_network (new_client ''key'', ())
                (chunks 1000 (dedupe ascii_lower {} [customer_of (Some ''a@x.com'')]))). isl r"
    by (simp only: d ch silent_outcomes) simp
  have p1: "prefix ''customer'' customers_page_key" and p2: "prefix ''customer'' customer_42_key"
    using customer_keys_match
    by (simp_all add: customer_pattern_def customers_page_key_def customer_42_key_def)
  have p3: "\<not> prefix ''customer'' ''nps_score''" by simp
  have l: "lookup warm_cache ''nps_score'' = Some \<lparr>entry_value = ''score'', expiresAt = 3600000\<rparr>"
    by (simp add: lookup_def warm_cache_def)
  note inst = createCustomers_always_invalidates [where net = silent_network
                and toLowerCase = ascii_lower and cs = "[customer_of (Some ''a@x.com'')]"
                and c = "new_client ''key''" and cache = warm_cache and w = "()"]
  from inst all p1 p2 p3 l d show ?thesis
    by (metis One_nat_def length_Cons list.size(3))
qed

section \<open>Properties of the cache\<close>

lemma invalidatePattern_count:
  "fst (invalidatePattern p cache) =
     length (store cache) - length (store (snd (invalidatePattern p cache)))"
proof -
  have "length (filter (\<lambda>(k, e). p k) (store cache)) +
        length (filter (\<lambda>(k, e). \<not> p k) (store cache)) = length (store cache)"
    using sum_length_filter_compl [of "\<lambda>(k, e). p k" "store cache"]
    by (simp add: case_prod_unfold)
  then show ?thesis by (simp add: invalidatePattern_def)
qed

lemma card_matching_keys:
  "distinct (map fst al) \<Longrightarrow>
     card {k \<in> dom (map_of al). p k} = length (filter (\<lambda>(k, e). p k) al)"
proof (induction al)
  case Nil
  then show ?case by simp
next
  case (Cons a al)
  obtain k e where a: "a = (k, e)" by (cases a)
  define S where "S = {k' \<in> dom (map_of al). p k'}"
  from Cons.prems a have fresh: "k \<notin> S" and d: "distinct (map fst al)"
    by (auto simp: S_def dom_map_of_conv_image_fst)
  have fin: "finite S" by (simp add: S_def finite_dom_map_of)
  have IH: "card S = length (filter (\<lambda>(k, e). p k) al)"
    unfolding S_def by (rule Cons.IH [OF d])
  have split: "{k' \<in> dom (map_of (a # al)). p k'} = (if p k then insert k S else S)"
    using a by (auto simp: S_def)
  show ?case
  proof (cases "p k")
    case True
    with split have "card {k' \<in> dom (map_of (a # al)). p k'} = Suc (card S)"
      using fin fresh by simp
    moreover have "length (filter (\<lambda>(k, e). p k) (a # al)) =
        Suc (length (filter (\<lambda>(k, e). p k) al))"
      using True a by simp
    ultimately show ?thesis by (simp only: IH)
  next
    case False
    with split have "card {k' \<in> dom (map_of (a # al)). p k'} = card S"
      by (simp only: if_False)
    moreover have "length (filter (\<lambda>(k, e). p k) (a # al)) =
        length (filter (\<lambda>(k, e). p k) al)"
      using False a by simp
    ultimately show ?thesis by (simp only: IH)
  qed
qed

lemma delete_request:
  "fetch_request c ''/customers''
     \<lparr>http_method = Some ''DELETE'', params = None, body = Some (EmailBody address), timeout = None\<rparr> =
     \<lparr>url = ''https://app.retently.com/api/v2/customers'', searchParams = [], req_method = ''DELETE'',
      req_headers = [(''X-Api-Key'', apiKey c), (''Content-Type'', ''application/json''),
                     (''Accept'', ''application/json'')],
      req_body = Some (EmailBody address)\<rparr>"
  by (simp add: fetch_request_def the_method_def the_params_def baseUrl_def)

lemma deleteCustomer_eq:
  "deleteCustomer net address (c, cache, w) =
     (case request net ''/customers''
             \<lparr>http_method = Some ''DELETE'', params = None, body = Some (EmailBody address),
              timeout = None\<rparr> (c, w) of
        (Inl e, c', w') \<Rightarrow> (Inl e, c', cache, w')
      | (Inr y, c', w') \<Rightarrow>
          (Inr \<lparr>delete_write_operation = True, delete_action = ''delete-customer'', deleted = True\<rparr>,
           c', snd (invalidatePattern customer_pattern cache), w'))"
  by (simp add: deleteCustomer_def no_options_def)

lemma deleteCustomer_log:
  "fst (snd (snd (snd (deleteCustomer (recording net) address (c, cache, ([], w)))))) =
     [\<lparr>url = ''https://app.retently.com/api/v2/customers'', searchParams = [], req_method = ''DELETE'',
       req_headers = [(''X-Api-Key'', apiKey c), (''Content-Type'', ''application/json''),
                      (''Accept'', ''application/json'')],
       req_body = Some (EmailBody address)\<rparr>]"
  by (simp add: deleteCustomer_eq request_recording delete_request split: prod.splits sum.splits)

text \<open>
  Claim C5. \<open>invalidatePattern(/^customer/)\<close> leaves no key that starts with \<open>customer\<close>
  stored, among them the keys of the customer list and of a single customer; every other
  key has the entry it had; the counters and the switch are unchanged; and the count
  returned is the number of entries removed. \<open>createCustomers\<close> ends with this
  invalidation. \<open>deleteCustomer\<close> sends one DELETE request for the address; when the
  request succeeds it returns its confirmation and the cache is the invalidated one, and
  when the request fails the error is returned and the cache is as before.
\<close>

theorem invalidatePattern_customer:
  "(\<forall>key. prefix ''customer'' key \<longrightarrow> lookup (snd (invalidatePattern customer_pattern cache)) key = None)
   \<and> (\<forall>key. \<not> prefix ''customer'' key \<longrightarrow>
          lookup (snd (invalidatePattern customer_pattern cache)) key = lookup cache key)
   \<and> store (snd (invalidatePattern customer_pattern cache)) =
       filter (\<lambda>(k, e). \<not> prefix ''customer'' k) (store cache)
   \<and> hits (snd (invalidatePattern customer_pattern cache)) = hits cache
   \<and> misses (snd (invalidatePattern customer_pattern cache)) = misses cache
   \<and> enabled (snd (invalidatePattern customer_pattern cache)) = enabled cache
   \<and> fst (invalidatePattern customer_pattern cache) =
       length (store cache) - length (store (snd (invalidatePattern customer_pattern cache)))
   \<and> (distinct (map fst (store cache)) \<longrightarrow>
         fst (invalidatePattern customer_pattern cache) =
         card {key \<in> dom (lookup cache). prefix ''customer'' key})
   \<and> prefix ''customer'' (createCacheKey ''customers'' ps)
   \<and> prefix ''customer'' (createCacheKey ''customer'' ps)
   \<and> fst (snd (snd (createCustomers net toLowerCase cs (c, cache, w)))) =
       snd (invalidatePattern customer_pattern cache)
   \<and> (\<forall>y c' w'.
         request net ''/customers''
           \<lparr>http_method = Some ''DELETE'', params = None, body = Some (EmailBody address),
            timeout = None\<rparr> (c, w) = (Inr y, c', w') \<longrightarrow>
         deleteCustomer net address (c, cache, w) =
           (Inr \<lparr>delete_write_operation = True, delete_action = ''delete-customer'', deleted = True\<rparr>,
            c', snd (invalidatePattern customer_pattern cache), w'))
   \<and> (\<forall>e c' w'.
         request net ''/customers''
           \<lparr>http_method = Some ''DELETE'', params = None, body = Some (EmailBody address),
            timeout = None\<rparr> (c, w) = (Inl e, c', w') \<longrightarrow>
         deleteCustomer net address (c, cache, w) = (Inl e, c', cache, w'))
   \<and> fst (snd (snd (snd (deleteCustomer (recording net) address (c, cache, ([], w)))))) =
       [\<lparr>url = ''https://app.retently.com/api/v2/customers'', searchParams = [],
         req_method = ''DELETE'',
         req_headers = [(''X-Api-Key'', apiKey c), (''Content-Type'', ''application/json''),
                        (''Accept'', ''application/json'')],
         req_body = Some (EmailBody address)\<rparr>]"
proof (intro conjI allI impI)
  fix key assume "prefix ''customer'' key"
  then show "lookup (snd (invalidatePattern customer_pattern cache)) key = None"
    by (simp add: lookup_invalidatePattern customer_pattern_def)
next
  fix key assume "\<not> prefix ''customer'' key"
  then show "lookup (snd (invalidatePattern customer_pattern cache)) key = lookup cache key"
    by (simp add: lookup_invalidatePattern customer_pattern_def)
next
  show "store (snd (invalidatePattern customer_pattern cache)) =
       filter (\<lambda>(k, e). \<not> prefix ''customer'' k) (store cache)"
    by (simp add: invalidatePattern_def customer_pattern_def)
  show "hits (snd (invalidatePattern customer_pattern cache)) = hits cache"
    and "misses (snd (invalidatePattern customer_pattern cache)) = misses cache"
    and "enabled (snd (invalidatePattern customer_pattern cache)) = enabled cache"
    by (simp_all add: invalidatePattern_def)
  show "fst (invalidatePattern customer_pattern cache) =
       length (store cache) - length (store (snd (invalidatePattern customer_pattern cache)))"
    by (rule invalidatePattern_count)
  show "prefix ''customer'' (createCacheKey ''customers'' ps)"
    and "prefix ''customer'' (createCacheKey ''customer'' ps)"
    using customer_keys_match [of ps] by (simp_all add: customer_pattern_def)
  show "fst (snd (snd (createCustomers net toLowerCase cs (c, cache, w)))) =
       snd (invalidatePattern customer_pattern cache)"
    by (rule createCustomers_cache)
  show "fst (snd (snd (snd (deleteCustomer (recording net) address (c, cache, ([], w)))))) =
       [\<lparr>url = ''https://app.retently.com/api/v2/customers'', searchParams = [],
         req_method = ''DELETE'',
         req_headers = [(''X-Api-Key'', apiKey c), (''Content-Type'', ''application/json''),
                        (''Accept'', ''application/json'')],
         req_body = Some (EmailBody address)\<rparr>]"
    by (rule deleteCustomer_log)
next
  assume "distinct (map fst (store cache))"
  then show "fst (invalidatePattern customer_pattern cache) =
         card {key \<in> dom (lookup cache). prefix ''customer'' key}"
    using card_matching_keys [of "store cache" "prefix ''customer''"]
    by (simp add: invalidatePattern_def customer_pattern_def lookup_def [abs_def])
next
  fix y c' w'
  assume "request net ''/customers''
           \<lparr>http_method = Some ''DELETE'', params = None, body = Some (EmailBody address),
            timeout = None\<rparr> (c, w) = (Inr y, c', w')"
  then show "deleteCustomer net address (c, cache, w) =
           (Inr \<lparr>delete_write_operation = True, delete_action = ''delete-customer'', deleted = True\<rparr>,
            c', snd (invalidatePattern customer_pattern cache), w')"
    by (simp add: deleteCustomer_eq)
next
  fix e c' w'
  assume "request net ''/customers''
           \<lparr>http_method = Some ''DELETE'', params = None, body = Some (EmailBody address),
            timeout = None\<rparr> (c, w) = (Inl e, c', w')"
  then show "deleteCustomer net address (c, cache, w) = (Inl e, c', cache, w')"
    by (simp add: deleteCustomer_eq)
qed

lemma warm_keys:
  "customer_pattern customers_page_key" "customer_pattern customer_42_key"
  "\<not> customer_pattern ''nps_score''"
  using customer_keys_match
  by (simp_all add: customers_page_key_def customer_42_key_def) (simp add: customer_pattern_def)

lemma warm_cache_invalidated:
  "invalidatePattern customer_pattern warm_cache =
     (2, warm_cache\<lparr>store := [(''nps_score'', \<lparr>entry_value = ''score'', expiresAt = 3600000\<rparr>)]\<rparr>)"
  by (simp add: invalidatePattern_def warm_cache_def warm_keys)

lemma delete_created:
  "request (respond 10 created) ''/customers''
     \<lparr>http_method = Some ''DELETE'', params = None, body = Some (EmailBody ''a@x.com''),
      timeout = None\<rparr> (new_client ''key'', ()) =
     (Inr ''{}'', (new_client ''key'')\<lparr>lastRateLimitInfo := parse_rate_limit created\<rparr>, ())"
  by (simp add: request_def fetch_def respond_def the_timeout_def created_def ok_def)

theorem invalidatePattern_customer_witness:
  "deleteCustomer (respond 10 created) ''a@x.com'' (new_client ''key'', warm_cache, ()) =
     (Inr \<lparr>delete_write_operation = True, delete_action = ''delete-customer'', deleted = True\<rparr>,
      (new_client ''key'')\<lparr>lastRateLimitInfo := parse_rate_limit created\<rparr>,
      warm_cache\<lparr>store := [(''nps_score'', \<lparr>entry_value = ''score'', expiresAt = 3600000\<rparr>)]\<rparr>,
      ())
   \<and> fst (snd (snd (createCustomers (respond 10 created) ascii_lower case_variants
                       (new_client ''key'', warm_cache, ())))) =
       warm_cache\<lparr>store := [(''nps_score'', \<lparr>entry_value = ''score'', expiresAt = 3600000\<rparr>)]\<rparr>
   \<and> lookup (snd (invalidatePattern customer_pattern warm_cache)) customers_page_key = None
   \<and> lookup (snd (invalidatePattern customer_pattern warm_cache)) customer_42_key = None
   \<and> lookup (snd (invalidatePattern customer_pattern warm_cache)) ''nps_score'' =
       Some \<lparr>entry_value = ''score'', expiresAt = 3600000\<rparr>
   \<and> fst (invalidatePattern customer_pattern warm_cache) = 2
   \<and> length (store warm_cache) - length (store (snd (invalidatePattern customer_pattern warm_cache))) = 2"
proof -
  have p1: "prefix ''customer'' customers_page_key" and p2: "prefix ''customer'' customer_42_key"
    and p3: "\<not> prefix ''customer'' ''nps_score''"
    using warm_keys by (simp_all add: customer_pattern_def)
  have l: "lookup warm_cache ''nps_score'' = Some \<lparr>entry_value = ''score'', expiresAt = 3600000\<rparr>"
    by (simp add: lookup_def warm_cache_def)
  have n: "fst (invalidatePattern customer_pattern warm_cache) = 2"
    and i: "snd (invalidatePattern customer_pattern warm_cache) =
      warm_cache\<lparr>store := [(''nps_score'', \<lparr>entry_value = ''score'', expiresAt = 3600000\<rparr>)]\<rparr>"
    by (simp_all add: warm_cache_invalidated)
  note inst = invalidatePattern_customer [where cache = warm_cache and ps = "[]"
      and net = "respond 10 created" and toLowerCase = ascii_lower and cs = case_variants
      and c = "new_client ''key''" and w = "()" and address = "''a@x.com''"]
  from inst delete_created
  have "deleteCustomer (respond 10 created) ''a@x.com'' (new_client ''key'', warm_cache, ()) =
     (Inr \<lparr>delete_write_operation = True, delete_action = ''delete-customer'', deleted = True\<rparr>,
      (new_client ''key'')\<lparr>lastRateLimitInfo := parse_rate_limit created\<rparr>,
      snd (invalidatePattern customer_pattern warm_cache), ())"
    by blast
  then have del: "deleteCustomer (respond 10 created) ''a@x.com'' (new_client ''key'', warm_cache, ()) =
     (Inr \<lparr>delete_write_operation = True, delete_action = ''delete-customer'', deleted = True\<rparr>,
      (new_client ''key'')\<lparr>lastRateLimitInfo := parse_rate_limit created\<rparr>,
      warm_cache\<lparr>store := [(''nps_score'', \<lparr>entry_value = ''score'', expiresAt = 3600000\<rparr>)]\<rparr>,
      ())"
    by (simp only: i)
  from inst have "fst (snd (snd (createCustomers (respond 10 created) ascii_lower case_variants
                       (new_client ''key'', warm_cache, ())))) =
       snd (invalidatePattern customer_pattern warm_cache)"
    by blast
  then have cre: "fst (snd (snd (createCustomers (respond 10 created) ascii_lower case_variants
                       (new_client ''key'', warm_cache, ())))) =
       warm_cache\<lparr>store := [(''nps_score'', \<lparr>entry_value = ''score'', expiresAt = 3600000\<rparr>)]\<rparr>"
    by (simp only: i)
  from inst p1 have a: "lookup (snd (invalidatePattern customer_pattern warm_cache)) customers_page_key = None"
    by blast
  from inst p2 have b: "lookup (snd (invalidatePattern customer_pattern warm_cache)) customer_42_key = None"
    by blast
  from inst p3 have "lookup (snd (invalidatePattern customer_pattern warm_cache)) ''nps_score'' =
       lookup warm_cache ''nps_score''"
    by blast
  with l have c: "lookup (snd (invalidatePattern customer_pattern warm_cache)) ''nps_score'' =
       Some \<lparr>entry_value = ''score'', expiresAt = 3600000\<rparr>"
    by simp
  from inst have "fst (invalidatePattern customer_pattern warm_cache) =
       length (store warm_cache) - length (store (snd (invalidatePattern customer_pattern warm_cache)))"
    by blast
  with n have d: "length (store warm_cache) -
       length (store (snd (invalidatePattern customer_pattern warm_cache))) = 2"
    by simp
  from del cre a b c n d show ?thesis by (intro conjI)
qed

lemma lookup_update:
  "lookup (cache\<lparr>store := AList.update k e (store cache)\<rparr>) k' =
     (if k' = k then Some e else lookup cache k')"
  by (simp add: lookup_def update_conv')

lemma getOrFetch_hit:
  assumes "enabled cache" and "lookup cache key = Some e" and "now < expiresAt e"
  shows "getOrFetch now key fetchFn ttl False (cache, s) =
           (Inr (entry_value e), cache\<lparr>hits := hits cache + 1\<rparr>, s)"
  using assms by (simp add: getOrFetch_def)

lemma getOrFetch_miss:
  assumes "enabled cache" and "\<forall>e. lookup cache key = Some e \<longrightarrow> expiresAt e \<le> now"
  shows "\<exists>cache'. enabled cache' \<and>
           getOrFetch now key fetchFn ttl False (cache, s) =
             fetch_and_store now key fetchFn ttl (cache', s)"
proof (cases "lookup cache key")
  case None
  with assms(1) show ?thesis by (intro exI [of _ cache]) (simp add: getOrFetch_def)
next
  case (Some e)
  with assms have "\<not> now < expiresAt e" by auto
  with Some assms(1) show ?thesis
    by (intro exI [of _ "cache\<lparr>store := AList.delete key (store cache)\<rparr>"])
       (simp add: getOrFetch_def)
qed

lemma getOrFetch_miss_result:
  assumes "enabled cache" and "\<forall>e. lookup cache key = Some e \<longrightarrow> expiresAt e \<le> now"
    and "getOrFetch now key (counting fetchFn) ttl False (cache, (n, s)) = (r, cache', st)"
  shows "r = fst (fetchFn s) \<and> st = (Suc n, snd (fetchFn s)) \<and> enabled cache' \<and>
         (\<forall>v. fst (fetchFn s) = Inr v \<longrightarrow>
              lookup cache' key = Some \<lparr>entry_value = v, expiresAt = now + ttl\<rparr>)"
proof -
  obtain c0 where c0: "enabled c0"
    and g: "getOrFetch now key (counting fetchFn) ttl False (cache, (n, s)) =
            fetch_and_store now key (counting fetchFn) ttl (c0, (n, s))"
    using getOrFetch_miss [OF assms(1,2), of "counting fetchFn" ttl "(n, s)"] by blast
  obtain r0 s0 where f: "fetchFn s = (r0, s0)" by (cases "fetchFn s")
  then have cf: "counting fetchFn (n, s) = (r0, (Suc n, s0))" by (simp add: counting_def)
  have fs: "fetch_and_store now key (counting fetchFn) ttl (c0, (n, s)) =
      (case r0 of
         Inl e \<Rightarrow> (Inl e, c0\<lparr>misses := misses c0 + 1\<rparr>, (Suc n, s0))
       | Inr v \<Rightarrow>
           (Inr v, c0\<lparr>misses := misses c0 + 1,
               store := AList.update key \<lparr>entry_value = v, expiresAt = now + ttl\<rparr> (store c0)\<rparr>,
            (Suc n, s0)))"
    by (simp add: fetch_and_store_def cf split: sum.splits)
  from assms(3) have eq: "(r, cache', st) =
      fetch_and_store now key (counting fetchFn) ttl (c0, (n, s))"
    by (simp only: g)
  show ?thesis
  proof (cases r0)
    case (Inl e)
    with eq fs have "r = Inl e" and "cache' = c0\<lparr>misses := misses c0 + 1\<rparr>" and "st = (Suc n, s0)"
      by simp_all
    with f Inl c0 show ?thesis by simp
  next
    case (Inr v)
    with eq fs have "r = Inr v"
      and "cache' = c0\<lparr>misses := misses c0 + 1,
            store := AList.update key \<lparr>entry_value = v, expiresAt = now + ttl\<rparr> (store c0)\<rparr>"
      and "st = (Suc n, s0)"
      by simp_all
    with f Inr c0 show ?thesis by (simp add: lookup_def update_conv')
  qed
qed

text \<open>
  Claim C1, as stated for every fetch function and every cache, fails in two ways. A fetch
  function that fails stores nothing, so two calls within \<open>T\<close> invoke it twice. And when
  an unexpired entry for the key is stored before the first call, two calls within \<open>T\<close>
  do not invoke the fetch function at all.
\<close>

theorem getOrFetch_once_counterexample:
  "getOrFetch 1000 ''nps_score'' (counting failing) 60000 False (new_cache, (0, 7)) =
     (Inl (Error ''unreachable''), new_cache\<lparr>misses := 1\<rparr>, (1, 8))
   \<and> getOrFetch 2000 ''nps_score'' (counting failing) 60000 False (new_cache\<lparr>misses := 1\<rparr>, (1, 8)) =
     (Inl (Error ''unreachable''), new_cache\<lparr>misses := 2\<rparr>, (2, 9))
   \<and> getOrFetch 1000 ''nps_score'' (counting numbered) 60000 False
       (\<lparr>store = [(''nps_score'', \<lparr>entry_value = 5, expiresAt = 61000\<rparr>)], hits = 0, misses = 1,
         enabled = True\<rparr>, (0, 7)) =
     (Inr 5,
      \<lparr>store = [(''nps_score'', \<lparr>entry_value = 5, expiresAt = 61000\<rparr>)], hits = 1, misses = 1,
       enabled = True\<rparr>,
      (0, 7))
   \<and> getOrFetch 2000 ''nps_score'' (counting numbered) 60000 False
       (\<lparr>store = [(''nps_score'', \<lparr>entry_value = 5, expiresAt = 61000\<rparr>)], hits = 1, misses = 1,
         enabled = True\<rparr>, (0, 7)) =
     (Inr 5,
      \<lparr>store = [(''nps_score'', \<lparr>entry_value = 5, expiresAt = 61000\<rparr>)], hits = 2, misses = 1,
       enabled = True\<rparr>,
      (0, 7))"
  by (simp add: getOrFetch_def lookup_def new_cache_def fetch_and_store_def counting_def failing_def)

text \<open>
  Claim C1, amended. With the cache enabled, no bypass and no unexpired entry for the key
  at the time of the first call, a first call of \<open>getOrFetch\<close> whose fetch function
  succeeds invokes it once and stores its value with \<open>expiresAt = now + T\<close>. A second call
  less than \<open>T\<close> after the first returns the stored value and does not invoke the fetch
  function: it has been invoked exactly once. A third call \<open>T\<close> or more after the first
  invokes the fetch function again and, when it succeeds, stores the new value with
  \<open>expiresAt = now + T\<close>.
\<close>

theorem getOrFetch_once_per_window:
  assumes "enabled cache"
    and "\<forall>e. lookup cache k = Some e \<longrightarrow> expiresAt e \<le> t1"
    and "f s1 = (Inr v, s1')"
    and "t2 < t1 + T" and "t1 + T \<le> t3"
    and "getOrFetch t1 k (counting f) T False (cache, (n, s1)) = (r1, cache1, st1)"
    and "getOrFetch t2 k (counting f) T False (cache1, (fst st1, s2)) = (r2, cache2, st2)"
    and "getOrFetch t3 k (counting f) T False (cache2, (fst st2, s3)) = (r3, cache3, st3)"
  shows "r1 = Inr v \<and> st1 = (Suc n, s1')
         \<and> lookup cache1 k = Some \<lparr>entry_value = v, expiresAt = t1 + T\<rparr>
         \<and> r2 = Inr v \<and> st2 = (Suc n, s2)
         \<and> r3 = fst (f s3) \<and> st3 = (Suc (Suc n), snd (f s3))
         \<and> (\<forall>v'. fst (f s3) = Inr v' \<longrightarrow>
               lookup cache3 k = Some \<lparr>entry_value = v', expiresAt = t3 + T\<rparr>)"
proof -
  from getOrFetch_miss_result [OF assms(1,2,6)] assms(3)
  have first: "r1 = Inr v" "st1 = (Suc n, s1')" "enabled cache1"
    "lookup cache1 k = Some \<lparr>entry_value = v, expiresAt = t1 + T\<rparr>"
    by simp_all
  from first(3,4) assms(4)
  have "getOrFetch t2 k (counting f) T False (cache1, (fst st1, s2)) =
          (Inr v, cache1\<lparr>hits := hits cache1 + 1\<rparr>, (fst st1, s2))"
    by (simp add: getOrFetch_hit)
  with assms(7) first(2)
  have second: "r2 = Inr v" "st2 = (Suc n, s2)" "cache2 = cache1\<lparr>hits := hits cache1 + 1\<rparr>"
    by simp_all
  from second(3) first(3,4) have en2: "enabled cache2"
    and l2: "lookup cache2 k = Some \<lparr>entry_value = v, expiresAt = t1 + T\<rparr>"
    by (simp_all add: lookup_def)
  from l2 assms(5) have stale: "\<forall>e. lookup cache2 k = Some e \<longrightarrow> expiresAt e \<le> t3"
    by simp
  from assms(8) second(2)
  have "getOrFetch t3 k (counting f) T False (cache2, (Suc n, s3)) = (r3, cache3, st3)"
    by simp
  from getOrFetch_miss_result [OF en2 stale this]
  have third: "r3 = fst (f s3)" "st3 = (Suc (Suc n), snd (f s3))"
    "\<forall>v'. fst (f s3) = Inr v' \<longrightarrow>
        lookup cache3 k = Some \<lparr>entry_value = v', expiresAt = t3 + T\<rparr>"
    by simp_all
  from first second third show ?thesis by simp
qed

lemma numbered_first:
  "getOrFetch 1000 ''nps_score'' (counting numbered) 60000 False (new_cache, (0, 10)) =
     (Inr 10,
      \<lparr>store = [(''nps_score'', \<lparr>entry_value = 10, expiresAt = 61000\<rparr>)], hits = 0, misses = 1,
       enabled = True\<rparr>,
      (1, 11))"
  by (simp add: getOrFetch_def lookup_def new_cache_def fetch_and_store_def counting_def numbered_def)

lemma numbered_second:
  "getOrFetch 60999 ''nps_score'' (counting numbered) 60000 False
     (\<lparr>store = [(''nps_score'', \<lparr>entry_value = 10, expiresAt = 61000\<rparr>)], hits = 0, misses = 1,
       enabled = True\<rparr>, (1, 20)) =
     (Inr 10,
      \<lparr>store = [(''nps_score'', \<lparr>entry_value = 10, expiresAt = 61000\<rparr>)], hits = 1, misses = 1,
       enabled = True\<rparr>,
      (1, 20))"
  by (simp add: getOrFetch_def lookup_def)

theorem getOrFetch_once_per_window_witness:
  "getOrFetch 60999 ''nps_score'' (counting numbered) 60000 False
     (\<lparr>store = [(''nps_score'', \<lparr>entry_value = 10, expiresAt = 61000\<rparr>)], hits = 0, misses = 1,
       enabled = True\<rparr>, (1, 20)) =
     (Inr 10,
      \<lparr>store = [(''nps_score'', \<lparr>entry_value = 10, expiresAt = 61000\<rparr>)], hits = 1, misses = 1,
       enabled = True\<rparr>,
      (1, 20))
   \<and> fst (getOrFetch 61000 ''nps_score'' (counting numbered) 60000 False
       (\<lparr>store = [(''nps_score'', \<lparr>entry_value = 10, expiresAt = 61000\<rparr>)], hits = 1, misses = 1,
         enabled = True\<rparr>, (1, 30))) = Inr 30
   \<and> snd (snd (getOrFetch 61000 ''nps_score'' (counting numbered) 60000 False
       (\<lparr>store = [(''nps_score'', \<lparr>entry_value = 10, expiresAt = 61000\<rparr>)], hits = 1, misses = 1,
         enabled = True\<rparr>, (1, 30)))) = (2, 31)
   \<and> lookup (fst (snd (getOrFetch 61000 ''nps_score'' (counting numbered) 60000 False
       (\<lparr>store = [(''nps_score'', \<lparr>entry_value = 10, expiresAt = 61000\<rparr>)], hits = 1, misses = 1,
         enabled = True\<rparr>, (1, 30))))) ''nps_score'' =
       Some \<lparr>entry_value = 30, expiresAt = 121000\<rparr>"
proof -
  define c1 :: "nat PluginCache" where
    "c1 = \<lparr>store = [(''nps_score'', \<lparr>entry_value = 10, expiresAt = 61000\<rparr>)], hits = 0, misses = 1,
            enabled = True\<rparr>"
  define c2 :: "nat PluginCache" where
    "c2 = \<lparr>store = [(''nps_score'', \<lparr>entry_value = 10, expiresAt = 61000\<rparr>)], hits = 1, misses = 1,
            enabled = True\<rparr>"
  obtain r3 c3 st3 where third:
    "getOrFetch 61000 ''nps_score'' (counting numbered) 60000 False (c2, (1, 30)) = (r3, c3, st3)"
    by (cases "getOrFetch 61000 ''nps_score'' (counting numbered) 60000 False (c2, (1, 30))")
  have en: "enabled (new_cache :: nat PluginCache)"
    and fresh: "\<forall>e. lookup (new_cache :: nat PluginCache) ''nps_score'' = Some e \<longrightarrow> expiresAt e \<le> 1000"
    by (simp_all add: new_cache_def lookup_def)
  have f: "numbered 10 = (Inr 10, 11)" by (simp add: numbered_def)
  have t: "(60999::nat) < 1000 + 60000" "(1000::nat) + 60000 \<le> 61000" by simp_all
  have first: "getOrFetch 1000 ''nps_score'' (counting numbered) 60000 False (new_cache, (0, 10)) =
      (Inr 10, c1, (1, 11))"
    unfolding c1_def by (rule numbered_first)
  have second: "getOrFetch 60999 ''nps_score'' (counting numbered) 60000 False (c1, (fst (1::nat, 11::nat), 20)) =
      (Inr 10, c2, (1, 20))"
    unfolding c1_def c2_def by (simp only: fst_conv numbered_second)
  have third': "getOrFetch 61000 ''nps_score'' (counting numbered) 60000 False (c2, (fst (1::nat, 20::nat), 30)) =
      (r3, c3, st3)"
    using third by simp
  note inst = getOrFetch_once_per_window [of new_cache "''nps_score''" 1000 numbered 10 10 11
      60999 60000 61000 0 "Inr 10" c1 "(1, 11)" 20 "Inr 10" c2 "(1, 20)" 30 r3 c3 st3,
      OF en fresh f t first second third']
  from inst have "r3 = Inr 30" and "st3 = (2, 31)"
    and "lookup c3 ''nps_score'' = Some \<lparr>entry_value = 30, expiresAt = 121000\<rparr>"
    by (simp_all add: numbered_def)
  with third second show ?thesis
    unfolding c1_def c2_def by (simp add: numbered_second)
qed

section \<open>Properties of the feedback list\<close>

lemma new_client_enabled: "cacheDisabled (new_client key) = False"
  by (simp add: new_client_def)

lemma getOrFetch_bypass:
  "getOrFetch now key fetchFn ttl True (cache, s) = (fst (fetchFn s), cache, snd (fetchFn s))"
  by (simp add: getOrFetch_def split: prod.splits)

lemma listFeedback_bypass:
  assumes "truthy (since options)"
  shows "listFeedback net now options (c, cache, w) =
           (fst (feedback_fetch net options (c, w)),
            fst (snd (feedback_fetch net options (c, w))),
            cache,
            snd (snd (feedback_fetch net options (c, w))))"
  using assms by (simp add: listFeedback_def cached_def getOrFetch_bypass split: prod.splits)

text \<open>
  Claim C3, as stated, fails when \<open>since\<close> is present and empty: the empty string is
  falsy, the cache is not bypassed, and a second identical call within the two minutes
  returns the value stored by the first one without a request.
\<close>

theorem listFeedback_empty_since_counterexample:
  "since empty_since = Some '''' \<and>
   listFeedback (recording (respond 10 created)) 0 empty_since (new_client ''key'', new_cache, ([], ())) =
     (Inr ''{}'',
      (new_client ''key'')\<lparr>lastRateLimitInfo := parse_rate_limit created\<rparr>,
      \<lparr>store = [(feedback_key empty_since, \<lparr>entry_value = ''{}'', expiresAt = 120000\<rparr>)],
       hits = 0, misses = 1, enabled = True\<rparr>,
      ([fetch_request (new_client ''key'') ''/feedback'' (feedback_request empty_since)], ())) \<and>
   listFeedback (recording (respond 10 unavailable)) 5000 empty_since
     ((new_client ''key'')\<lparr>lastRateLimitInfo := parse_rate_limit created\<rparr>,
      \<lparr>store = [(feedback_key empty_since, \<lparr>entry_value = ''{}'', expiresAt = 120000\<rparr>)],
       hits = 0, misses = 1, enabled = True\<rparr>,
      ([fetch_request (new_client ''key'') ''/feedback'' (feedback_request empty_since)], ())) =
     (Inr ''{}'',
      (new_client ''key'')\<lparr>lastRateLimitInfo := parse_rate_limit created\<rparr>,
      \<lparr>store = [(feedback_key empty_since, \<lparr>entry_value = ''{}'', expiresAt = 120000\<rparr>)],
       hits = 1, misses = 1, enabled = True\<rparr>,
      ([fetch_request (new_client ''key'') ''/feedback'' (feedback_request empty_since)], ()))"
proof (intro conjI)
  show "since empty_since = Some ''''"
    by (simp add: empty_since_def no_filter_def)
  have t: "\<not> truthy (since empty_since)"
    by (simp add: empty_since_def no_filter_def truthy_def)
  have r: "request (respond 10 created) ''/feedback'' (feedback_request empty_since) (new_client ''key'', ()) =
      (Inr ''{}'', (new_client ''key'')\<lparr>lastRateLimitInfo := parse_rate_limit created\<rparr>, ())"
    by (simp add: request_def fetch_def respond_def the_timeout_def feedback_request_def no_options_def
          created_def ok_def)
  show "listFeedback (recording (respond 10 created)) 0 empty_since (new_client ''key'', new_cache, ([], ())) =
     (Inr ''{}'',
      (new_client ''key'')\<lparr>lastRateLimitInfo := parse_rate_limit created\<rparr>,
      \<lparr>store = [(feedback_key empty_since, \<lparr>entry_value = ''{}'', expiresAt = 120000\<rparr>)],
       hits = 0, misses = 1, enabled = True\<rparr>,
      ([fetch_request (new_client ''key'') ''/feedback'' (feedback_request empty_since)], ()))"
    by (simp add: listFeedback_def cached_def getOrFetch_def fetch_and_store_def feedback_fetch_def
          request_recording r t lookup_def new_cache_def new_client_enabled TTL_MINUTE_def Let_def)
  show "listFeedback (recording (respond 10 unavailable)) 5000 empty_since
     ((new_client ''key'')\<lparr>lastRateLimitInfo := parse_rate_limit created\<rparr>,
      \<lparr>store = [(feedback_key empty_since, \<lparr>entry_value = ''{}'', expiresAt = 120000\<rparr>)],
       hits = 0, misses = 1, enabled = True\<rparr>,
      ([fetch_request (new_client ''key'') ''/feedback'' (feedback_request empty_since)], ())) =
     (Inr ''{}'',
      (new_client ''key'')\<lparr>lastRateLimitInfo := parse_rate_limit created\<rparr>,
      \<lparr>store = [(feedback_key empty_since, \<lparr>entry_value = ''{}'', expiresAt = 120000\<rparr>)],
       hits = 1, misses = 1, enabled = True\<rparr>,
      ([fetch_request (new_client ''key'') ''/feedback'' (feedback_request empty_since)], ()))"
    by (simp add: listFeedback_def cached_def getOrFetch_def t lookup_def new_client_enabled)
qed

text \<open>
  Claim C3, amended. When \<open>since\<close> is present and not empty, \<open>listFeedback\<close> bypasses the
  cache: the request is always sent, exactly once, its result is what the call returns,
  and the cache is neither read nor written.
\<close>

theorem listFeedback_since_bypasses:
  assumes "truthy (since options)"
  shows "listFeedback net now options (c, cache, w) =
           (fst (request net ''/feedback'' (feedback_request options) (c, w)),
            fst (snd (request net ''/feedback'' (feedback_request options) (c, w))),
            cache,
            snd (snd (request net ''/feedback'' (feedback_request options) (c, w))))
         \<and> fst (snd (snd (snd (listFeedback (recording net) now options (c, cache, (log, w)))))) =
             log @ [fetch_request c ''/feedback'' (feedback_request options)]
         \<and> (\<exists>s. since options = Some s \<and> s \<noteq> [])"
proof (intro conjI)
  show "listFeedback net now options (c, cache, w) =
           (fst (request net ''/feedback'' (feedback_request options) (c, w)),
            fst (snd (request net ''/feedback'' (feedback_request options) (c, w))),
            cache,
            snd (snd (request net ''/feedback'' (feedback_request options) (c, w))))"
    using listFeedback_bypass [OF assms] by (simp add: feedback_fetch_def)
  show "fst (snd (snd (snd (listFeedback (recording net) now options (c, cache, (log, w)))))) =
             log @ [fetch_request c ''/feedback'' (feedback_request options)]"
    by (simp add: listFeedback_bypass [OF assms] feedback_fetch_def request_recording split: prod.splits)
  show "\<exists>s. since options = Some s \<and> s \<noteq> []"
    using assms by (simp add: truthy_def split: option.splits)
qed

theorem listFeedback_since_bypasses_witness:
  "listFeedback (recording (respond 10 created)) 5000 polling
     (new_client ''key'', stale_feedback polling, ([], ())) =
     (Inr ''{}'',
      (new_client ''key'')\<lparr>lastRateLimitInfo := parse_rate_limit created\<rparr>,
      stale_feedback polling,
      ([fetch_request (new_client ''key'') ''/feedback'' (feedback_request polling)], ()))"
proof -
  have t: "truthy (since polling)"
    by (simp add: polling_def no_filter_def truthy_def)
  have r: "request (recording (respond 10 created)) ''/feedback'' (feedback_request polling)
             (new_client ''key'', ([], ())) =
      (Inr ''{}'', (new_client ''key'')\<lparr>lastRateLimitInfo := parse_rate_limit created\<rparr>,
       ([fetch_request (new_client ''key'') ''/feedback'' (feedback_request polling)], ()))"
    by (simp add: request_recording)
       (simp add: request_def fetch_def respond_def the_timeout_def feedback_request_def no_options_def
          created_def ok_def)
  from listFeedback_since_bypasses [OF t, of "recording (respond 10 created)" 5000 "new_client ''key''"
         "stale_feedback polling" "([], ())"]
  show ?thesis by (simp add: r)
qed

section \<open>Properties of the cache keys\<close>

lemma digit_cases: "d < 10 \<Longrightarrow> d \<in> {0, 1, 2, 3, 4, 5, 6, 7, 8, 9::nat}"
  by auto

lemma digit_char_is_digit: "d < 10 \<Longrightarrow> is_digit (digit_char d)"
  by (drule digit_cases) (auto simp: digit_char_def is_digit_def)

lemma digit_val_digit_char: "d < 10 \<Longrightarrow> digit_val (digit_char d) = d"
  by (drule digit_cases) (auto simp: digit_char_def digit_val_def)

lemma string_of_nat_digits: "\<forall>c \<in> set (string_of_nat n). is_digit c"
proof (induction n rule: string_of_nat.induct)
  case (1 n)
  show ?case
  proof (cases "n < 10")
    case True
    then show ?thesis by (simp add: string_of_nat_small digit_char_is_digit)
  next
    case False
    then have "string_of_nat n = string_of_nat (n div 10) @ [digit_char (n mod 10)]"
      by (simp add: string_of_nat_large)
    with "1.IH" False show ?thesis by (simp add: digit_char_is_digit)
  qed
qed

lemma string_of_nat_nonempty: "string_of_nat n \<noteq> []"
  by (cases "n < 10") (simp_all add: string_of_nat_small string_of_nat_large)

lemma nat_of_digits_snoc: "nat_of_digits (ds @ [c]) = 10 * nat_of_digits ds + digit_val c"
  by (simp add: nat_of_digits_def)

lemma nat_of_digits_string_of_nat: "nat_of_digits (string_of_nat n) = n"
proof (induction n rule: string_of_nat.induct)
  case (1 n)
  show ?case
  proof (cases "n < 10")
    case True
    then show ?thesis
      by (simp add: string_of_nat_small nat_of_digits_def digit_val_digit_char)
  next
    case False
    then have "string_of_nat n = string_of_nat (n div 10) @ [digit_char (n mod 10)]"
      by (simp add: string_of_nat_large)
    with "1.IH" False show ?thesis
      by (simp add: nat_of_digits_snoc digit_val_digit_char)
  qed
qed

lemma string_of_nat_inj: "string_of_nat m = string_of_nat n \<Longrightarrow> m = n"
  using nat_of_digits_string_of_nat by metis

lemma minus_not_digit: "\<not> is_digit CHR ''-''"
  by (simp add: is_digit_def)

lemma string_of_int_inj: "string_of_int i = string_of_int j \<Longrightarrow> i = j"
proof -
  assume eq: "string_of_int i = string_of_int j"
  have no_minus: "string_of_nat m \<noteq> CHR ''-'' # s" for m s
  proof
    assume "string_of_nat m = CHR ''-'' # s"
    then have "CHR ''-'' \<in> set (string_of_nat m)" by simp
    with string_of_nat_digits [of m] minus_not_digit show False by blast
  qed
  show "i = j"
  proof (cases "i < 0")
    case i: True
    show ?thesis
    proof (cases "j < 0")
      case True
      with i eq have "string_of_nat (nat (- i)) = string_of_nat (nat (- j))"
        by (simp add: string_of_int_def)
      then have "nat (- i) = nat (- j)" by (rule string_of_nat_inj)
      with i True show ?thesis by simp
    next
      case False
      with i eq no_minus [of "nat j" "string_of_nat (nat (- i))"] show ?thesis
        by (simp add: string_of_int_def)
    qed
  next
    case i: False
    show ?thesis
    proof (cases "j < 0")
      case True
      with i eq no_minus [of "nat i" "string_of_nat (nat (- j))"] show ?thesis
        by (simp add: string_of_int_def)
    next
      case False
      with i eq have "string_of_nat (nat i) = string_of_nat (nat j)"
        by (simp add: string_of_int_def)
      then have "nat i = nat j" by (rule string_of_nat_inj)
      with i False show ?thesis by simp
    qed
  qed
qed

lemma string_of_int_set: "c \<in> set (string_of_int i) \<Longrightarrow> c = CHR ''-'' \<or> is_digit c"
proof (cases "i < 0")
  case True
  assume "c \<in> set (string_of_int i)"
  with True have "c = CHR ''-'' \<or> c \<in> set (string_of_nat (nat (- i)))"
    by (simp add: string_of_int_def)
  then show ?thesis using string_of_nat_digits by blast
next
  case False
  assume "c \<in> set (string_of_int i)"
  with False have "c \<in> set (string_of_nat (nat i))"
    by (simp add: string_of_int_def)
  then show ?thesis using string_of_nat_digits by blast
qed

lemma string_of_int_chars:
  "CHR 0x22 \<notin> set (string_of_int i)" "CHR '';'' \<notin> set (string_of_int i)"
  "CHR ''e'' \<notin> set (string_of_int i)"
  using string_of_int_set [of _ i] by (auto simp: is_digit_def)

lemma string_of_int_nonempty: "string_of_int i \<noteq> []"
  by (simp add: string_of_int_def string_of_nat_nonempty)


lemma escape_char_cancel: "escape_char c @ x = escape_char d @ y \<Longrightarrow> c = d \<and> x = y"
  by (auto simp: escape_char_def split: if_splits)

lemma escape_char_not_quote: "escape_char c @ x \<noteq> CHR 0x22 # y"
  by (auto simp: escape_char_def)

lemma escaped_delimited:
  "concat (map escape_char s) @ CHR 0x22 # r = concat (map escape_char t) @ CHR 0x22 # r'
     \<Longrightarrow> s = t \<and> r = r'"
proof (induction s arbitrary: t)
  case Nil
  show ?case
  proof (cases t)
    case Nil
    with Nil.prems show ?thesis by simp
  next
    case (Cons d t')
    with Nil.prems have "escape_char d @ (concat (map escape_char t') @ CHR 0x22 # r') = CHR 0x22 # r"
      by simp
    with escape_char_not_quote show ?thesis by blast
  qed
next
  case (Cons c s)
  show ?case
  proof (cases t)
    case Nil
    with Cons.prems have "escape_char c @ (concat (map escape_char s) @ CHR 0x22 # r) = CHR 0x22 # r'"
      by simp
    with escape_char_not_quote show ?thesis by blast
  next
    case (Cons d t')
    with Cons.prems have "escape_char c @ (concat (map escape_char s) @ CHR 0x22 # r) =
        escape_char d @ (concat (map escape_char t') @ CHR 0x22 # r')"
      by simp
    then have "c = d" and "concat (map escape_char s) @ CHR 0x22 # r =
        concat (map escape_char t') @ CHR 0x22 # r'"
      using escape_char_cancel by blast+
    with Cons.IH [of t'] Cons show ?thesis by simp
  qed
qed

lemma quote_delimited: "quote s @ r = quote t @ r' \<Longrightarrow> s = t \<and> r = r'"
  using escaped_delimited [of s r t r'] by (simp add: quote_def)

lemma split_at_delimiter:
  "d \<notin> set xs \<Longrightarrow> d \<notin> set ys \<Longrightarrow> xs @ d # r = ys @ d # r' \<Longrightarrow> xs = ys \<and> r = r'"
proof (induction xs arbitrary: ys)
  case Nil
  then show ?case by (cases ys) auto
next
  case (Cons x xs)
  then show ?case by (cases ys) auto
qed

lemma render_unquoted:
  "CHR '';'' \<notin> set (render_value (PNumber n))" "CHR '';'' \<notin> set (render_value (PBoolean b))"
  "render_value (PNumber n) \<noteq> []" "render_value (PBoolean b) \<noteq> []"
  "hd (render_value (PNumber n)) \<noteq> CHR 0x22" "hd (render_value (PBoolean b)) \<noteq> CHR 0x22"
proof -
  show "CHR '';'' \<notin> set (render_value (PNumber n))" by (simp add: string_of_int_chars)
  show "CHR '';'' \<notin> set (render_value (PBoolean b))" by simp
  show "render_value (PNumber n) \<noteq> []" by (simp add: string_of_int_nonempty)
  show "render_value (PBoolean b) \<noteq> []" by simp
  show "hd (render_value (PNumber n)) \<noteq> CHR 0x22"
    using string_of_int_chars(1) [of n] string_of_int_nonempty [of n]
    by (cases "string_of_int n") auto
  show "hd (render_value (PBoolean b)) \<noteq> CHR 0x22" by simp
qed

lemma render_value_unquoted_inj:
  assumes "\<forall>s. v \<noteq> PString s" and "\<forall>s. v' \<noteq> PString s" and "render_value v = render_value v'"
  shows "v = v'"
proof (cases v)
  case (PString s)
  with assms(1) show ?thesis by simp
next
  case n: (PNumber n)
  show ?thesis
  proof (cases v')
    case (PString s)
    with assms(2) show ?thesis by simp
  next
    case (PNumber m)
    with n assms(3) show ?thesis by (simp add: string_of_int_inj)
  next
    case (PBoolean b)
    have "CHR ''e'' \<in> set (render_value (PBoolean b))" by simp
    with PBoolean n assms(3) have "CHR ''e'' \<in> set (string_of_int n)" by simp
    moreover have "CHR ''e'' \<notin> set (string_of_int n)"
      by (rule string_of_int_chars)
    ultimately show ?thesis by simp
  qed
next
  case b: (PBoolean b)
  show ?thesis
  proof (cases v')
    case (PString s)
    with assms(2) show ?thesis by simp
  next
    case (PNumber m)
    have "CHR ''e'' \<in> set (render_value (PBoolean b))" by simp
    with PNumber b assms(3) have "CHR ''e'' \<in> set (string_of_int m)" by simp
    moreover have "CHR ''e'' \<notin> set (string_of_int m)"
      by (rule string_of_int_chars)
    ultimately show ?thesis by simp
  next
    case (PBoolean b')
    with b assms(3) show ?thesis by (auto split: if_splits)
  qed
qed

lemma quote_head: "quote s = CHR 0x22 # concat (map escape_char s) @ [CHR 0x22]"
  by (simp add: quote_def)

lemma render_value_delimited:
  assumes "render_value v @ CHR '';'' # r = render_value v' @ CHR '';'' # r'"
  shows "v = v' \<and> r = r'"
proof (cases "\<exists>s. v = PString s")
  case True
  then obtain s where v: "v = PString s" by blast
  show ?thesis
  proof (cases "\<exists>t. v' = PString t")
    case True
    then obtain t where v': "v' = PString t" by blast
    from assms v v' have "quote s @ (CHR '';'' # r) = quote t @ (CHR '';'' # r')" by simp
    then have "s = t \<and> CHR '';'' # r = CHR '';'' # r'" by (rule quote_delimited)
    with v v' show ?thesis by simp
  next
    case False
    then have "render_value v' \<noteq> []" and "hd (render_value v') \<noteq> CHR 0x22"
      using render_unquoted by (cases v'; simp)+
    moreover from assms v have "hd (render_value v' @ CHR '';'' # r') = CHR 0x22"
      by (simp add: quote_head flip: assms)
    ultimately show ?thesis by simp
  qed
next
  case False
  then have nq: "\<forall>s. v \<noteq> PString s" by blast
  then have ne: "render_value v \<noteq> []" and h: "hd (render_value v) \<noteq> CHR 0x22"
    and semi: "CHR '';'' \<notin> set (render_value v)"
    using render_unquoted by (cases v; simp)+
  show ?thesis
  proof (cases "\<exists>t. v' = PString t")
    case True
    then obtain t where v': "v' = PString t" by blast
    with assms have "hd (render_value v @ CHR '';'' # r) = CHR 0x22"
      by (simp add: quote_head)
    with ne h show ?thesis by simp
  next
    case False
    then have nq': "\<forall>s. v' \<noteq> PString s" by blast
    then have semi': "CHR '';'' \<notin> set (render_value v')"
      using render_unquoted by (cases v'; simp)
    from split_at_delimiter [OF semi semi' assms]
    have "render_value v = render_value v'" and "r = r'" by simp_all
    with render_value_unquoted_inj [OF nq nq'] show ?thesis by simp
  qed
qed

lemma render_param_delimited:
  assumes "render_param a @ r = render_param b @ r'"
  shows "a = b \<and> r = r'"
proof -
  obtain k v where a: "a = (k, v)" by (cases a)
  obtain l u where b: "b = (l, u)" by (cases b)
  from assms a b have "quote k @ (CHR '':'' # render_value v @ CHR '';'' # r) =
      quote l @ (CHR '':'' # render_value u @ CHR '';'' # r')"
    by (simp add: render_param_def)
  then have "k = l" and "render_value v @ CHR '';'' # r = render_value u @ CHR '';'' # r'"
    using quote_delimited by blast+
  with render_value_delimited a b show ?thesis by blast
qed

lemma render_param_nonempty: "render_param a \<noteq> []"
  by (cases a) (simp add: render_param_def quote_def)

lemma render_params_inj:
  "concat (map render_param xs) = concat (map render_param ys) \<Longrightarrow> xs = ys"
proof (induction xs arbitrary: ys)
  case Nil
  then show ?case by (cases ys) (simp_all add: render_param_nonempty)
next
  case (Cons a xs)
  show ?case
  proof (cases ys)
    case Nil
    with Cons.prems show ?thesis by (simp add: render_param_nonempty)
  next
    case (Cons b ys')
    with Cons.prems have "render_param a @ concat (map render_param xs) =
        render_param b @ concat (map render_param ys')"
      by simp
    then have "a = b" and "concat (map render_param xs) = concat (map render_param ys')"
      using render_param_delimited by blast+
    with Cons.IH Cons show ?thesis by simp
  qed
qed

lemma set_defined_params: "set (defined_params ps) = {(k, v). (k, Some v) \<in> set ps}"
  by (induction ps) (auto simp: defined_params_def split: option.splits)

lemma defined_params_names: "distinct (map fst ps) \<Longrightarrow> distinct (map fst (defined_params ps))"
proof (induction ps)
  case Nil
  then show ?case by (simp add: defined_params_def)
next
  case (Cons p ps)
  obtain k v where p: "p = (k, v)" by (cases p)
  have sub: "fst ` set (defined_params ps) \<subseteq> fst ` set ps"
    by (auto simp: set_defined_params) force
  have "defined_params (p # ps) = (case v of None \<Rightarrow> [] | Some x \<Rightarrow> [(k, x)]) @ defined_params ps"
    by (simp add: defined_params_def p)
  with Cons p sub show ?case by (auto split: option.splits)
qed

lemma sorted_params_unique:
  assumes "distinct (map fst xs)" and "distinct (map fst ys)" and "set xs = set ys"
  shows "sort_key fst xs = sort_key fst ys"
proof (rule map_sorted_distinct_set_unique [where f = fst])
  from assms(1) have "inj_on fst (set xs)" by (simp add: distinct_map)
  with assms(3) show "inj_on fst (set (sort_key fst xs) \<union> set (sort_key fst ys))" by simp
  show "sorted (map fst (sort_key fst xs))" "sorted (map fst (sort_key fst ys))" by simp_all
  from assms(1) show "distinct (map fst (sort_key fst xs))"
    by (simp add: distinct_map)
  from assms(2) show "distinct (map fst (sort_key fst ys))"
    by (simp add: distinct_map)
  from assms(3) show "set (sort_key fst xs) = set (sort_key fst ys)" by simp
qed

text \<open>
  Claim C2. For one operation name and two parameter objects (each name occurs once in an
  object), \<open>createCacheKey\<close> gives the same key exactly when the two objects have the same
  defined name/value pairs: the order of the properties and the presence of undefined
  entries do not matter, and a difference in a defined value gives a different key.
\<close>

theorem createCacheKey_same_iff:
  assumes "distinct (map fst ps)" and "distinct (map fst qs)"
  shows "(createCacheKey operation ps = createCacheKey operation qs \<longleftrightarrow>
            {(k, v). (k, Some v) \<in> set ps} = {(k, v). (k, Some v) \<in> set qs})
         \<and> (mset ps = mset qs \<longrightarrow> createCacheKey operation ps = createCacheKey operation qs)
         \<and> createCacheKey operation (filter (\<lambda>(k, v). v \<noteq> None) ps) = createCacheKey operation ps"
proof -
  have names: "distinct (map fst (defined_params ps))" "distinct (map fst (defined_params qs))"
    using assms by (simp_all add: defined_params_names)
  have iff: "createCacheKey operation ps = createCacheKey operation qs \<longleftrightarrow>
        set (defined_params ps) = set (defined_params qs)"
  proof
    assume "createCacheKey operation ps = createCacheKey operation qs"
    then have "concat (map render_param (sort_key fst (defined_params ps))) =
        concat (map render_param (sort_key fst (defined_params qs)))"
      by (simp add: createCacheKey_def)
    then have "sort_key fst (defined_params ps) = sort_key fst (defined_params qs)"
      by (rule render_params_inj)
    then have "set (sort_key fst (defined_params ps)) = set (sort_key fst (defined_params qs))"
      by simp
    then show "set (defined_params ps) = set (defined_params qs)" by simp
  next
    assume "set (defined_params ps) = set (defined_params qs)"
    with names have "sort_key fst (defined_params ps) = sort_key fst (defined_params qs)"
      by (intro sorted_params_unique)
    then show "createCacheKey operation ps = createCacheKey operation qs"
      by (simp add: createCacheKey_def)
  qed
  have perm: "createCacheKey operation ps = createCacheKey operation qs" if "mset ps = mset qs"
  proof -
    from that have "set ps = set qs" by (rule mset_eq_setD)
    then show ?thesis by (simp add: iff set_defined_params)
  qed
  have "defined_params (filter (\<lambda>(k, v). v \<noteq> None) ps) = defined_params ps"
    by (induction ps) (auto simp: defined_params_def)
  then have drop: "createCacheKey operation (filter (\<lambda>(k, v). v \<noteq> None) ps) =
      createCacheKey operation ps"
    by (simp add: createCacheKey_def)
  from iff perm drop show ?thesis by (simp add: set_defined_params)
qed

theorem createCacheKey_same_iff_witness:
  "createCacheKey ''customers''
     [(''page'', Some (PNumber 1)), (''perPage'', None), (''email'', Some (PString ''a@x.com''))] =
   createCacheKey ''customers''
     [(''email'', Some (PString ''a@x.com'')), (''page'', Some (PNumber 1))]
   \<and> createCacheKey ''customers''
     [(''page'', Some (PNumber 1)), (''perPage'', None), (''email'', Some (PString ''a@x.com''))] \<noteq>
   createCacheKey ''customers''
     [(''page'', Some (PNumber 2)), (''email'', Some (PString ''a@x.com''))]"
proof -
  have d1: "distinct (map fst [(''page'', Some (PNumber 1)), (''perPage'', None),
                (''email'', Some (PString ''a@x.com''))])"
    and d2: "distinct (map fst [(''email'', Some (PString ''a@x.com'')), (''page'', Some (PNumber 1))])"
    and d3: "distinct (map fst [(''page'', Some (PNumber 2)), (''email'', Some (PString ''a@x.com''))])"
    by simp_all
  have same: "{(k, v). (k, Some v) \<in> set [(''page'', Some (PNumber 1)), (''perPage'', None),
                (''email'', Some (PString ''a@x.com''))]} =
        {(k, v). (k, Some v) \<in> set [(''email'', Some (PString ''a@x.com'')), (''page'', Some (PNumber 1))]}"
    by auto
  have other: "{(k, v). (k, Some v) \<in> set [(''page'', Some (PNumber 1)), (''perPage'', None),
                (''email'', Some (PString ''a@x.com''))]} \<noteq>
        {(k, v). (k, Some v) \<in> set [(''page'', Some (PNumber 2)), (''email'', Some (PString ''a@x.com''))]}"
  proof
    assume "{(k, v). (k, Some v) \<in> set [(''page'', Some (PNumber 1)), (''perPage'', None),
                (''email'', Some (PString ''a@x.com''))]} =
        {(k, v). (k, Some v) \<in> set [(''page'', Some (PNumber 2)), (''email'', Some (PString ''a@x.com''))]}"
    moreover have "(''page'', PNumber 1) \<in> {(k, v). (k, Some v) \<in> set [(''page'', Some (PNumber 1)),
                (''perPage'', None), (''email'', Some (PString ''a@x.com''))]}"
      by simp
    ultimately have "(''page'', PNumber 1) \<in> {(k, v). (k, Some v) \<in>
        set [(''page'', Some (PNumber 2)), (''email'', Some (PString ''a@x.com''))]}"
      by (rule subst)
    then show False by simp
  qed
  from createCacheKey_same_iff [OF d1 d2, of "''customers''"] same
  have a: "createCacheKey ''customers''
     [(''page'', Some (PNumber 1)), (''perPage'', None), (''email'', Some (PString ''a@x.com''))] =
   createCacheKey ''customers''
     [(''email'', Some (PString ''a@x.com'')), (''page'', Some (PNumber 1))]"
    by blast
  from createCacheKey_same_iff [OF d1 d3, of "''customers''"] other
  have b: "createCacheKey ''customers''
     [(''page'', Some (PNumber 1)), (''perPage'', None), (''email'', Some (PString ''a@x.com''))] \<noteq>
   createCacheKey ''customers''
     [(''page'', Some (PNumber 2)), (''email'', Some (PString ''a@x.com''))]"
    by blast
  from a b show ?thesis by (rule conjI)
qed


end
